theory Spec2Isabelle
  imports Complex_Main "HOL-Library.Char_ord" "HOL-Library.List_Lexorder"
begin

section \<open>The wiki knowledge store of \<^verbatim>\<open>src/rlm/wiki.py\<close>\<close>

text \<open>
  Conventions of the embedding.
  \<^item> A Python \<^verbatim>\<open>str\<close> is a \<^typ>\<open>string\<close>; the text is taken to be ASCII, so that
    \<^verbatim>\<open>str.lower\<close> maps \<^verbatim>\<open>A-Z\<close> to \<^verbatim>\<open>a-z\<close> and the regular expression class
    \<^verbatim>\<open>\w\<close> is \<^verbatim>\<open>[A-Za-z0-9_]\<close>. Python's Unicode tables are not modelled. The general
    theorems below never look inside the tokenizer; only the concrete examples do.
  \<^item> A Python \<^verbatim>\<open>float\<close> is a \<^typ>\<open>real\<close>: scores, the average document length and
    \<^verbatim>\<open>math.log\<close> are the exact real-valued functions, without binary rounding.
  \<^item> A \<^verbatim>\<open>dict\<close> is a map, a \<^verbatim>\<open>set\<close> a HOL set. The one place where the iteration
    order of a Python set is observable (the order in which \<^verbatim>\<open>search\<close> first scores
    documents) takes that order as a parameter \<open>enum\<close>.
  \<^item> Every \<^verbatim>\<open>raise\<close> is a value \<open>Inl e\<close>; a mutating operation returns its outcome
    together with the store it leaves behind, also when it raises.
  \<^item> Pages change only through the operations of the store: a caller that mutates a
    returned \<^verbatim>\<open>WikiPage\<close> object in place is outside the model.
\<close>

subsection \<open>Data model\<close>

record wiki_page =
  title :: string
  content :: string
  tags :: "string set"
  links :: "string set"
  created_at :: int
  updated_at :: int

record wiki =
  pages :: "string \<rightharpoonup> wiki_page"
  iteration :: int
  inverted_index :: "string \<rightharpoonup> string set"
  doc_lengths :: "string \<rightharpoonup> nat"
  avg_doc_length :: real

text \<open>
  All three errors are \<^verbatim>\<open>KeyError\<close> in the source: \<open>DuplicateTitle\<close> is the one
  raised by \<^verbatim>\<open>create\<close>, \<open>NotFound\<close> the one raised by \<^verbatim>\<open>_get_or_raise\<close>, and
  \<open>MissingKey\<close> the one a plain subscript \<^verbatim>\<open>self._pages[title]\<close> raises.
\<close>

datatype error = DuplicateTitle | NotFound | MissingKey

type_synonym 'a result = "error + 'a"

definition empty_wiki :: wiki where
  "empty_wiki = \<lparr>pages = Map.empty, iteration = 0, inverted_index = Map.empty,
     doc_lengths = Map.empty, avg_doc_length = 0\<rparr>"

subsection \<open>Tokenizer\<close>

definition is_word_char :: "char \<Rightarrow> bool" where
  "is_word_char c = (let n = (of_char c :: nat) in
     (48 \<le> n \<and> n \<le> 57) \<or> (65 \<le> n \<and> n \<le> 90) \<or> n = 95 \<or> (97 \<le> n \<and> n \<le> 122))"

definition lower_char :: "char \<Rightarrow> char" where
  "lower_char c = (let n = (of_char c :: nat) in
     if 65 \<le> n \<and> n \<le> 90 then char_of (n + 32) else c)"

definition lower :: "string \<Rightarrow> string" where
  "lower s = map lower_char s"

text \<open>\<^verbatim>\<open>re.findall(r'\w+', s)\<close>: the maximal runs of word characters, left to right.
  \<open>cur\<close> is the run being read.\<close>

fun findall_words :: "string \<Rightarrow> string \<Rightarrow> string list" where
  "findall_words [] cur = (if cur = [] then [] else [cur])"
| "findall_words (c # cs) cur =
     (if is_word_char c then findall_words cs (cur @ [c])
      else (if cur = [] then [] else [cur]) @ findall_words cs [])"

definition tokenize :: "string \<Rightarrow> string list" where
  "tokenize text = findall_words (lower text) []"

subsection \<open>Index maintenance\<close>

definition mean_length :: "(string \<rightharpoonup> nat) \<Rightarrow> real" where
  "mean_length dl = real (\<Sum>t\<in>dom dl. the (dl t)) / real (card (dom dl))"

definition remove_from_index :: "wiki \<Rightarrow> string \<Rightarrow> wiki" where
  "remove_from_index w t =
     (let dl = (doc_lengths w)(t := None);
          idx = (\<lambda>term. case inverted_index w term of
                   None \<Rightarrow> None
                 | Some titles \<Rightarrow> (if titles - {t} = {} then None else Some (titles - {t})))
      in w\<lparr>doc_lengths := dl, inverted_index := idx,
            avg_doc_length := (if dom dl \<noteq> {} then mean_length dl else 0)\<rparr>)"

definition add_posting :: "string \<Rightarrow> string \<Rightarrow> (string \<rightharpoonup> string set) \<Rightarrow> (string \<rightharpoonup> string set)" where
  "add_posting t token idx =
     idx(token \<mapsto> insert t (case idx token of None \<Rightarrow> {} | Some titles \<Rightarrow> titles))"

definition index_page :: "wiki \<Rightarrow> string \<Rightarrow> string \<Rightarrow> wiki" where
  "index_page w t c =
     (let w1 = remove_from_index w t;
          tokens = tokenize c;
          dl = (doc_lengths w1)(t \<mapsto> length tokens);
          idx = fold (add_posting t) (remdups tokens) (inverted_index w1)
      in w1\<lparr>doc_lengths := dl, inverted_index := idx,
             avg_doc_length := (if dom dl \<noteq> {} then mean_length dl else avg_doc_length w1)\<rparr>)"

subsection \<open>CRUD operations\<close>

definition get_or_raise :: "wiki \<Rightarrow> string \<Rightarrow> wiki_page result" where
  "get_or_raise w t = (case pages w t of None \<Rightarrow> Inl NotFound | Some p \<Rightarrow> Inr p)"

definition create :: "wiki \<Rightarrow> string \<Rightarrow> string \<Rightarrow> string set option \<Rightarrow> wiki_page result \<times> wiki" where
  "create w t c tgs =
     (if t \<in> dom (pages w) then (Inl DuplicateTitle, w)
      else
        let page = \<lparr>title = t, content = c,
                    tags = (case tgs of None \<Rightarrow> {} | Some ts \<Rightarrow> ts),
                    links = {}, created_at = iteration w, updated_at = iteration w\<rparr>;
            w1 = w\<lparr>pages := (pages w)(t \<mapsto> page)\<rparr>
        in (Inr page, index_page w1 t c))"

definition update ::
  "wiki \<Rightarrow> string \<Rightarrow> string option \<Rightarrow> string option \<Rightarrow> string set option \<Rightarrow> wiki_page result \<times> wiki" where
  "update w t c app tgs =
     (case get_or_raise w t of
        Inl e \<Rightarrow> (Inl e, w)
      | Inr page \<Rightarrow>
          let page1 = (case c of
                         Some c' \<Rightarrow> page\<lparr>content := c'\<rparr>
                       | None \<Rightarrow> (case app of
                                    Some a \<Rightarrow> page\<lparr>content := content page @ a\<rparr>
                                  | None \<Rightarrow> page));
              page2 = (case tgs of Some ts \<Rightarrow> page1\<lparr>tags := ts\<rparr> | None \<Rightarrow> page1);
              page3 = page2\<lparr>updated_at := iteration w\<rparr>;
              w1 = w\<lparr>pages := (pages w)(t \<mapsto> page3)\<rparr>
          in (Inr page3, index_page w1 t (content page3)))"

definition get :: "wiki \<Rightarrow> string \<Rightarrow> wiki_page result" where
  "get w t = get_or_raise w t"

definition discard_link :: "string \<Rightarrow> wiki_page \<Rightarrow> wiki_page" where
  "discard_link t p = p\<lparr>links := links p - {t}\<rparr>"

definition delete :: "wiki \<Rightarrow> string \<Rightarrow> unit result \<times> wiki" where
  "delete w t =
     (case get_or_raise w t of
        Inl e \<Rightarrow> (Inl e, w)
      | Inr _ \<Rightarrow>
          let w1 = w\<lparr>pages := (\<lambda>k. map_option (discard_link t) (pages w k))\<rparr>;
              w2 = remove_from_index w1 t
          in (Inr (), w2\<lparr>pages := (pages w2)(t := None)\<rparr>))"

definition link :: "wiki \<Rightarrow> string \<Rightarrow> string \<Rightarrow> unit result \<times> wiki" where
  "link w from_title to_title =
     (case get_or_raise w from_title of
        Inl e \<Rightarrow> (Inl e, w)
      | Inr p \<Rightarrow>
          (case get_or_raise w to_title of
             Inl e \<Rightarrow> (Inl e, w)
           | Inr _ \<Rightarrow>
               (Inr (), w\<lparr>pages := (pages w)(from_title \<mapsto> p\<lparr>links := insert to_title (links p)\<rparr>)\<rparr>)))"

definition set_iteration :: "wiki \<Rightarrow> int \<Rightarrow> wiki" where
  "set_iteration w i = w\<lparr>iteration := i\<rparr>"

text \<open>\<^verbatim>\<open>backlinks\<close> has no \<^verbatim>\<open>raise\<close> and no call of \<^verbatim>\<open>_get_or_raise\<close>: its outcome is
  always a normal return. The result type is the one of the other operations.\<close>

definition backlinks :: "wiki \<Rightarrow> string \<Rightarrow> string list result" where
  "backlinks w t =
     Inr (sorted_list_of_set {k \<in> dom (pages w). t \<in> links (the (pages w k))})"

subsection \<open>BM25 search\<close>

text \<open>The argument of \<^verbatim>\<open>math.log\<close> is \<open>(n + 1) / (df + 0.5)\<close>, which is positive for all
  counts, so the call cannot raise.\<close>

definition idf :: "nat \<Rightarrow> nat \<Rightarrow> real" where
  "idf n df = ln ((real n - real df + 0.5) / (real df + 0.5) + 1.0)"

definition bm25_term :: "real \<Rightarrow> real \<Rightarrow> real \<Rightarrow> real \<Rightarrow> real" where
  "bm25_term idf_v tf dl avg_dl =
     (let k1 = 1.5; b = 0.75;
          numerator = tf * (k1 + 1);
          denominator = tf + k1 * (1 - b + b * dl / avg_dl)
      in idf_v * numerator / denominator)"

text \<open>The \<^verbatim>\<open>defaultdict(float)\<close> of scores, in insertion order: \<^verbatim>\<open>scores[t] += x\<close>
  appends \<open>t\<close> with \<open>0.0 + x\<close> when it is new and updates it in place otherwise.\<close>

fun add_score :: "(string \<times> real) list \<Rightarrow> string \<Rightarrow> real \<Rightarrow> (string \<times> real) list" where
  "add_score [] t x = [(t, 0 + x)]"
| "add_score ((k, v) # rest) t x =
     (if k = t then (k, v + x) # rest else (k, v) # add_score rest t x)"

definition contribution :: "wiki \<Rightarrow> string \<Rightarrow> real \<Rightarrow> string \<Rightarrow> wiki_page \<Rightarrow> real" where
  "contribution w term idf_v t page =
     (let tf = count_list (tokenize (content page)) term;
          dl = (case doc_lengths w t of None \<Rightarrow> 1 | Some l \<Rightarrow> l);
          avg_dl = (if avg_doc_length w = 0 then 1.0 else avg_doc_length w)
      in bm25_term idf_v (real tf) (real dl) avg_dl)"

text \<open>The inner loop \<^verbatim>\<open>for title in doc_set\<close>, over the titles in the order the set
  yields them.\<close>

fun score_docs ::
  "wiki \<Rightarrow> string \<Rightarrow> real \<Rightarrow> string list \<Rightarrow> (string \<times> real) list \<Rightarrow> (string \<times> real) list result" where
  "score_docs w term idf_v [] scores = Inr scores"
| "score_docs w term idf_v (t # ts) scores =
     (case pages w t of
        None \<Rightarrow> Inl MissingKey
      | Some page \<Rightarrow>
          score_docs w term idf_v ts (add_score scores t (contribution w term idf_v t page)))"

text \<open>The outer loop \<^verbatim>\<open>for term in tokens\<close>.\<close>

fun score_terms ::
  "(string set \<Rightarrow> string list) \<Rightarrow> wiki \<Rightarrow> string list \<Rightarrow> (string \<times> real) list
     \<Rightarrow> (string \<times> real) list result" where
  "score_terms enum w [] scores = Inr scores"
| "score_terms enum w (term # terms) scores =
     (case inverted_index w term of
        None \<Rightarrow> score_terms enum w terms scores
      | Some doc_set \<Rightarrow>
          (case score_docs w term (idf (card (dom (pages w))) (card doc_set))
                  (enum doc_set) scores of
             Inl e \<Rightarrow> Inl e
           | Inr scores' \<Rightarrow> score_terms enum w terms scores'))"

text \<open>\<^verbatim>\<open>xs[:k]\<close>: a negative \<open>k\<close> counts from the end.\<close>

definition py_slice_to :: "'a list \<Rightarrow> int \<Rightarrow> 'a list" where
  "py_slice_to xs k =
     (if 0 \<le> k then take (nat k) xs else take (nat (int (length xs) + k)) xs)"

text \<open>\<^verbatim>\<open>xs[i:j]\<close> for \<open>0 \<le> i \<le> j\<close>.\<close>

definition py_slice :: "'a list \<Rightarrow> nat \<Rightarrow> nat \<Rightarrow> 'a list" where
  "py_slice xs i j = take (j - i) (drop i xs)"

text \<open>\<^verbatim>\<open>round(x, 3)\<close> on the exact value: to the nearest multiple of \<open>1/1000\<close>, a tie
  to the even one.\<close>

definition round_half_even :: "real \<Rightarrow> int" where
  "round_half_even x =
     (let f = \<lfloor>x\<rfloor>; d = x - of_int f
      in if d < 1/2 then f else if 1/2 < d then f + 1 else if even f then f else f + 1)"

definition py_round3 :: "real \<Rightarrow> real" where
  "py_round3 x = of_int (round_half_even (x * 1000)) / 1000"

text \<open>\<^verbatim>\<open>s.find(sub)\<close>: the least index at which \<open>sub\<close> occurs, \<open>None\<close> for \<open>-1\<close>.\<close>

fun find_from :: "string \<Rightarrow> string \<Rightarrow> nat \<Rightarrow> nat option" where
  "find_from [] sub i = (if sub = [] then Some i else None)"
| "find_from (c # cs) sub i =
     (if take (length sub) (c # cs) = sub then Some i else find_from cs sub (Suc i))"

definition replace_newlines :: "string \<Rightarrow> string" where
  "replace_newlines s = map (\<lambda>c. if c = CHR 0x0A then CHR '' '' else c) s"

fun best_position :: "string \<Rightarrow> string list \<Rightarrow> nat \<Rightarrow> nat" where
  "best_position lo [] best_pos = best_pos"
| "best_position lo (token # tokens) best_pos =
     (case find_from lo token 0 of
        None \<Rightarrow> best_position lo tokens best_pos
      | Some pos \<Rightarrow> best_position lo tokens (if pos < best_pos then pos else best_pos))"

definition make_snippet :: "string \<Rightarrow> string list \<Rightarrow> string" where
  "make_snippet c query_tokens =
     (let max_len = 120;
          best_pos = best_position (lower c) query_tokens (length c)
      in if best_pos = length c
         then replace_newlines (py_slice c 0 max_len) @ (if length c > max_len then ''...'' else [])
         else
           let start = best_pos - 30;
               end_pos = start + max_len;
               snippet = replace_newlines (py_slice c start end_pos);
               snippet1 = (if start > 0 then ''...'' @ snippet else snippet)
           in (if end_pos < length c then snippet1 @ ''...'' else snippet1))"

fun build_results ::
  "wiki \<Rightarrow> string list \<Rightarrow> (string \<times> real) list \<Rightarrow> (string \<times> real \<times> string) list result" where
  "build_results w tokens [] = Inr []"
| "build_results w tokens ((t, score) # ranked) =
     (case pages w t of
        None \<Rightarrow> Inl MissingKey
      | Some page \<Rightarrow>
          (case build_results w tokens ranked of
             Inl e \<Rightarrow> Inl e
           | Inr results \<Rightarrow>
               Inr ((t, py_round3 score, make_snippet (content page) tokens) # results)))"

text \<open>\<^verbatim>\<open>sorted(scores.items(), key=lambda x: x[1], reverse=True)\<close> is a stable sort by
  descending score, which is \<^const>\<open>sort_key\<close> on the negated score.\<close>

definition search ::
  "(string set \<Rightarrow> string list) \<Rightarrow> wiki \<Rightarrow> string \<Rightarrow> int
     \<Rightarrow> (string \<times> real \<times> string) list result" where
  "search enum w query top_k =
     (let tokens = tokenize query
      in if tokens = [] \<or> pages w = Map.empty then Inr []
         else
           (case score_terms enum w tokens [] of
              Inl e \<Rightarrow> Inl e
            | Inr scores \<Rightarrow>
                build_results w tokens (py_slice_to (sort_key (\<lambda>x. - snd x) scores) top_k)))"

subsection \<open>Reachable stores\<close>

text \<open>The calls by which the store is mutated, and the store each leaves behind
  (the same store when the call raises).\<close>

datatype call =
  Create string string "string set option"
| Update string "string option" "string option" "string set option"
| Delete string
| Link string string
| SetIteration int

fun exec :: "call \<Rightarrow> wiki \<Rightarrow> wiki" where
  "exec (Create t c tgs) w = snd (create w t c tgs)"
| "exec (Update t c app tgs) w = snd (update w t c app tgs)"
| "exec (Delete t) w = snd (delete w t)"
| "exec (Link a b) w = snd (link w a b)"
| "exec (SetIteration i) w = set_iteration w i"

inductive reachable :: "wiki \<Rightarrow> bool" where
  r_init: "reachable empty_wiki"
| r_step: "reachable w \<Longrightarrow> reachable (exec cl w)"

subsection \<open>Concrete stores\<close>

text \<open>The store after \<^verbatim>\<open>create("p1", "cat")\<close> on a fresh wiki.\<close>

definition wiki_cat :: wiki where
  "wiki_cat = snd (create empty_wiki ''p1'' ''cat'' None)"

text \<open>Then \<^verbatim>\<open>create("p2", "cat")\<close>; then \<^verbatim>\<open>link("p1", "p2")\<close>, or
  \<^verbatim>\<open>set_iteration(5)\<close>.\<close>

definition wiki_two :: wiki where
  "wiki_two = snd (create wiki_cat ''p2'' ''cat'' None)"

definition wiki_linked :: wiki where
  "wiki_linked = snd (link wiki_two ''p1'' ''p2'')"

definition wiki_at5 :: wiki where
  "wiki_at5 = set_iteration wiki_two 5"

definition page_cat :: "string \<Rightarrow> wiki_page" where
  "page_cat t = \<lparr>title = t, content = ''cat'', tags = {}, links = {},
     created_at = 0, updated_at = 0\<rparr>"

subsection \<open>Invariants\<close>

text \<open>Referential integrity: every link of every page names a page of the store.\<close>

definition links_closed :: "wiki \<Rightarrow> bool" where
  "links_closed w = (\<forall>t p. pages w t = Some p \<longrightarrow> links p \<subseteq> dom (pages w))"

text \<open>Index/content coherence: the inverted index, the length records and the stored
  average are the ones the current pages determine. \<open>containing ps tok\<close> is the set of
  live pages whose current content has the token \<open>tok\<close>.\<close>

definition token_count :: "wiki_page \<Rightarrow> nat" where
  "token_count p = length (tokenize (content p))"

definition containing :: "(string \<rightharpoonup> wiki_page) \<Rightarrow> string \<Rightarrow> string set" where
  "containing ps tok = {t. \<exists>p. ps t = Some p \<and> tok \<in> set (tokenize (content p))}"

definition mean_token_count :: "(string \<rightharpoonup> wiki_page) \<Rightarrow> real" where
  "mean_token_count ps =
     real (\<Sum>t\<in>dom ps. token_count (the (ps t))) / real (card (dom ps))"

definition index_coherent :: "wiki \<Rightarrow> bool" where
  "index_coherent w =
     ((\<forall>tok. inverted_index w tok =
          (if containing (pages w) tok = {} then None else Some (containing (pages w) tok)))
      \<and> (\<forall>t. doc_lengths w t = map_option token_count (pages w t))
      \<and> avg_doc_length w = (if pages w = Map.empty then 0 else mean_token_count (pages w)))"

subsection \<open>Search: auxiliary notions\<close>

text \<open>An admissible iteration order of Python sets: every finite set is listed exactly
  once each element.\<close>

definition enumerates :: "(string set \<Rightarrow> string list) \<Rightarrow> bool" where
  "enumerates enum = (\<forall>s. finite s \<longrightarrow> set (enum s) = s \<and> distinct (enum s))"

text \<open>The value \<^verbatim>\<open>scores[k]\<close> of the score dictionary, 0 for a missing key.\<close>

definition score_of :: "(string \<times> real) list \<Rightarrow> string \<Rightarrow> real" where
  "score_of scores k = (case map_of scores k of None \<Rightarrow> 0 | Some v \<Rightarrow> v)"

text \<open>What one occurrence of a query token adds to the score of document \<open>t\<close>: the BM25
  term when the token has a posting list that contains \<open>t\<close>, nothing otherwise.\<close>

definition term_score :: "wiki \<Rightarrow> string \<Rightarrow> string \<Rightarrow> real" where
  "term_score w t term =
     (case inverted_index w term of
        None \<Rightarrow> 0
      | Some doc_set \<Rightarrow>
          if t \<in> doc_set
          then (let page = the (pages w t)
                in bm25_term (idf (card (dom (pages w))) (card doc_set))
                     (real (count_list (tokenize (content page)) term))
                     (real (token_count page))
                     (if avg_doc_length w = 0 then 1 else avg_doc_length w))
          else 0)"

text \<open>The unrounded score the code accumulates: one summand for every token of the
  query, repeated tokens counted as often as they occur.\<close>

definition code_score :: "wiki \<Rightarrow> string \<Rightarrow> string \<Rightarrow> real" where
  "code_score w query t = (\<Sum>term\<leftarrow>tokenize query. term_score w t term)"

text \<open>The score in the words of the specification: one summand for every distinct
  token of the query.\<close>

definition spec_score :: "wiki \<Rightarrow> string \<Rightarrow> string \<Rightarrow> real" where
  "spec_score w query t = (\<Sum>term\<leftarrow>remdups (tokenize query). term_score w t term)"

text \<open>One row of the result list, from a ranked pair of title and score.\<close>

definition result_row :: "wiki \<Rightarrow> string list \<Rightarrow> string \<times> real \<Rightarrow> string \<times> real \<times> string" where
  "result_row w tokens x =
     (fst x, py_round3 (snd x), make_snippet (content (the (pages w (fst x)))) tokens)"

section \<open>Properties\<close>

subsection \<open>Basic facts\<close>

lemma remove_from_index_pages [simp]: "pages (remove_from_index w t) = pages w"
  and remove_from_index_iteration [simp]: "iteration (remove_from_index w t) = iteration w"
  by (simp_all add: remove_from_index_def Let_def)

lemma index_page_pages [simp]: "pages (index_page w t c) = pages w"
  and index_page_iteration [simp]: "iteration (index_page w t c) = iteration w"
  by (simp_all add: index_page_def Let_def)

lemma tokenize_cat: "tokenize ''cat'' = [''cat'']"
  by code_simp

lemma pages_wiki_cat:
  "pages wiki_cat = [''p1'' \<mapsto> \<lparr>title = ''p1'', content = ''cat'', tags = {}, links = {},
     created_at = 0, updated_at = 0\<rparr>]"
  by (simp add: wiki_cat_def create_def empty_wiki_def Let_def)

subsection \<open>Update with both content and append\<close>

text \<open>
  Claim C10. When \<^verbatim>\<open>update(title, content=c, append=s)\<close> is called on an existing page
  with both arguments supplied, the call succeeds and the body of the page, as returned
  and as stored, is exactly \<open>c\<close>: the \<^verbatim>\<open>elif\<close> branch of the append is never taken.
\<close>

theorem update_content_wins:
  "pages w t = Some p \<Longrightarrow>
     \<exists>p'. fst (update w t (Some c) (Some s) tgs) = Inr p'
        \<and> pages (snd (update w t (Some c) (Some s) tgs)) t = Some p'
        \<and> content p' = c"
  by (cases tgs) (simp_all add: update_def get_or_raise_def Let_def)

theorem update_content_wins_witness:
  "pages wiki_cat ''p1'' \<noteq> None \<and>
   (\<exists>p'. fst (update wiki_cat ''p1'' (Some ''dog'') (Some ''fish'') None) = Inr p'
        \<and> pages (snd (update wiki_cat ''p1'' (Some ''dog'') (Some ''fish'') None)) ''p1'' = Some p'
        \<and> content p' = ''dog'')"
  using update_content_wins [of wiki_cat "''p1''" _ "''dog''" "''fish''" None]
  by (simp add: pages_wiki_cat)

subsection \<open>Create, then get, then create again\<close>

text \<open>
  Claim C9. After \<^verbatim>\<open>create(t, c)\<close> succeeds, \<^verbatim>\<open>get(t)\<close> returns the created page, whose
  content is \<open>c\<close> and whose two timestamps are the iteration at creation time. A
  further \<^verbatim>\<open>create(t, ...)\<close>, with any content and tags, on the resulting store and on
  any store that holds \<open>t\<close>, fails with \<open>DuplicateTitle\<close> and leaves the whole store
  (pages and index) as it was.
\<close>

theorem create_then_get:
  "create w t c tgs = (Inr p, w') \<Longrightarrow>
     get w' t = Inr p \<and> content p = c
     \<and> created_at p = iteration w \<and> updated_at p = iteration w
     \<and> create w' t c' tgs' = (Inl DuplicateTitle, w')
     \<and> (pages w'' t \<noteq> None \<longrightarrow> create w'' t c' tgs' = (Inl DuplicateTitle, w''))"
  by (auto simp: create_def get_def get_or_raise_def Let_def split: if_splits)

theorem create_then_get_witness:
  "create empty_wiki ''p1'' ''cat'' None =
      (Inr \<lparr>title = ''p1'', content = ''cat'', tags = {}, links = {},
             created_at = 0, updated_at = 0\<rparr>, wiki_cat)
   \<and> get wiki_cat ''p1'' = Inr \<lparr>title = ''p1'', content = ''cat'', tags = {}, links = {},
             created_at = 0, updated_at = 0\<rparr>
   \<and> pages wiki_cat ''p1'' \<noteq> None
   \<and> create wiki_cat ''p1'' ''dog'' (Some {''x''}) = (Inl DuplicateTitle, wiki_cat)"
proof -
  have c: "create empty_wiki ''p1'' ''cat'' None =
      (Inr \<lparr>title = ''p1'', content = ''cat'', tags = {}, links = {},
             created_at = 0, updated_at = 0\<rparr>, wiki_cat)"
    by (simp add: wiki_cat_def create_def empty_wiki_def Let_def)
  from create_then_get [OF c, of "''dog''" "Some {''x''}" wiki_cat] c show ?thesis
    by (simp add: pages_wiki_cat)
qed

subsection \<open>The BM25 term and the inverse document frequency\<close>

text \<open>
  Claim C6. The BM25 contribution of a term is monotone in the term frequency: for fixed
  \<open>idf \<ge> 0\<close>, \<open>dl \<ge> 0\<close>, \<open>avgdl > 0\<close> and natural numbers \<open>tf1 \<le> tf2\<close>, the
  contribution at \<open>tf1\<close> is at most the one at \<open>tf2\<close> (over the reals, with
  \<open>k1 = 1.5\<close> and \<open>b = 0.75\<close> as in the source).
\<close>

theorem bm25_term_mono:
  "0 \<le> idf_v \<Longrightarrow> 0 \<le> dl \<Longrightarrow> 0 < avg_dl \<Longrightarrow> tf1 \<le> tf2 \<Longrightarrow>
     bm25_term idf_v (real tf1) dl avg_dl \<le> bm25_term idf_v (real tf2) dl avg_dl"
proof -
  assume h: "0 \<le> idf_v" "0 \<le> dl" "0 < avg_dl" "tf1 \<le> tf2"
  define K where "K = 1.5 * (1 - 0.75 + 0.75 * dl / avg_dl)"
  have K: "0 < K" using h by (simp add: K_def add_pos_nonneg)
  have a: "real tf1 * (real tf2 + K) \<le> real tf2 * (real tf1 + K)"
    using h K by (simp add: algebra_simps mult_right_mono)
  have "real tf1 / (real tf1 + K) \<le> real tf2 / (real tf2 + K)"
    using a K by (simp add: frac_le_eq add_pos_nonneg divide_le_0_iff add_nonneg_pos field_simps)
  hence "(1.5 + 1) * idf_v * (real tf1 / (real tf1 + K))
       \<le> (1.5 + 1) * idf_v * (real tf2 / (real tf2 + K))"
    using h by (intro mult_left_mono) simp_all
  thus ?thesis by (simp add: bm25_term_def K_def Let_def algebra_simps)
qed

theorem bm25_term_mono_witness:
  "(0::real) \<le> 1 \<and> (0::real) < 1 \<and> (1::nat) \<le> 2
   \<and> bm25_term 1 (real (1::nat)) 1 1 \<le> bm25_term 1 (real (2::nat)) 1 1
   \<and> bm25_term 1 (real (1::nat)) 1 1 = 1"
  using bm25_term_mono [of 1 1 1 1 2] by (simp add: bm25_term_def)

text \<open>
  Claim C7. The inverse document frequency \<open>ln ((N - df + 0.5) / (df + 0.5) + 1)\<close> that
  \<^verbatim>\<open>search\<close> computes is non-negative for every document count \<open>N \<ge> 1\<close> and every
  posting-list size \<open>df\<close> with \<open>0 \<le> df \<le> N\<close> (over the reals).
\<close>

theorem idf_nonneg: "1 \<le> n \<Longrightarrow> df \<le> n \<Longrightarrow> 0 \<le> idf n df"
  unfolding idf_def by (intro ln_ge_zero) simp

theorem idf_nonneg_witness: "(1::nat) \<le> 1 \<and> 0 \<le> idf 1 1 \<and> idf 1 1 = ln (4 / 3)"
  using idf_nonneg [of 1 1] by (simp add: idf_def)

subsection \<open>The concrete stores\<close>

lemma pages_wiki_two: "pages wiki_two = [''p1'' \<mapsto> page_cat ''p1'', ''p2'' \<mapsto> page_cat ''p2'']"
  by (simp add: wiki_two_def create_def pages_wiki_cat page_cat_def Let_def)
     (simp add: wiki_cat_def create_def empty_wiki_def Let_def)

lemma pages_wiki_linked:
  "pages wiki_linked = [''p1'' \<mapsto> (page_cat ''p1'')\<lparr>links := {''p2''}\<rparr>, ''p2'' \<mapsto> page_cat ''p2'']"
  by (auto simp: wiki_linked_def link_def get_or_raise_def pages_wiki_two page_cat_def)

lemma pages_wiki_at5: "pages wiki_at5 = [''p1'' \<mapsto> page_cat ''p1'', ''p2'' \<mapsto> page_cat ''p2'']"
  and iteration_wiki_at5: "iteration wiki_at5 = 5"
  by (simp_all add: wiki_at5_def set_iteration_def pages_wiki_two)

lemma reachable_wiki_cat: "reachable wiki_cat"
  unfolding wiki_cat_def using r_step [OF r_init, of "Create ''p1'' ''cat'' None"] by simp

lemma reachable_wiki_two: "reachable wiki_two"
  unfolding wiki_two_def using r_step [OF reachable_wiki_cat, of "Create ''p2'' ''cat'' None"] by simp

lemma reachable_wiki_linked: "reachable wiki_linked"
  unfolding wiki_linked_def using r_step [OF reachable_wiki_two, of "Link ''p1'' ''p2''"] by simp

subsection \<open>Referential integrity of links\<close>

lemma links_closed_create: "links_closed w \<Longrightarrow> links_closed (snd (create w t c tgs))"
  by (auto simp: links_closed_def create_def Let_def split: if_splits)

lemma links_closed_update: "links_closed w \<Longrightarrow> links_closed (snd (update w t c app tgs))"
  by (fastforce simp: links_closed_def update_def get_or_raise_def Let_def
        split: option.splits if_splits)

lemma links_closed_delete: "links_closed w \<Longrightarrow> links_closed (snd (delete w t))"
  by (fastforce simp: links_closed_def delete_def get_or_raise_def discard_link_def Let_def
        split: option.splits if_splits)

lemma links_closed_link: "links_closed w \<Longrightarrow> links_closed (snd (link w a b))"
  by (fastforce simp: links_closed_def link_def get_or_raise_def Let_def
        split: option.splits if_splits)

lemma links_closed_exec: "links_closed w \<Longrightarrow> links_closed (exec cl w)"
  by (cases cl)
     (simp_all add: links_closed_create links_closed_update links_closed_delete links_closed_link,
      simp add: links_closed_def set_iteration_def)

lemma reachable_links_closed: "reachable w \<Longrightarrow> links_closed w"
  by (induction rule: reachable.induct)
     (simp_all add: links_closed_exec, simp add: links_closed_def empty_wiki_def)

lemma delete_strips:
  "delete w t = (Inr (), w') \<Longrightarrow>
     pages w' t = None \<and> (\<forall>k q. pages w' k = Some q \<longrightarrow> t \<notin> links q)"
  by (auto simp: delete_def get_or_raise_def discard_link_def Let_def
        split: option.splits if_splits)

lemma link_needs_both:
  "link w a b = (Inr (), w') \<Longrightarrow> a \<in> dom (pages w) \<and> b \<in> dom (pages w)"
  by (auto simp: link_def get_or_raise_def split: option.splits)

lemma link_not_found:
  "a \<notin> dom (pages w) \<or> b \<notin> dom (pages w) \<Longrightarrow> link w a b = (Inl NotFound, w)"
  by (auto simp: link_def get_or_raise_def split: option.splits)

text \<open>
  Claim C2. Referential integrity is an invariant of the store: in every reachable state
  the links of every page name pages that are present. A successful \<^verbatim>\<open>delete(d)\<close>
  leaves a store where \<open>d\<close> is gone and is in no page's links; a successful
  \<^verbatim>\<open>link(a, b)\<close> had both \<open>a\<close> and \<open>b\<close> present, and a \<^verbatim>\<open>link\<close> with an absent end
  fails with \<open>NotFound\<close> and adds nothing.
\<close>

theorem referential_integrity:
  "reachable w \<Longrightarrow>
     (pages w t = Some p \<longrightarrow> links p \<subseteq> dom (pages w))
   \<and> (delete w d = (Inr (), w') \<longrightarrow>
         pages w' d = None \<and> (\<forall>k q. pages w' k = Some q \<longrightarrow> d \<notin> links q))
   \<and> (link w a b = (Inr (), w'') \<longrightarrow> a \<in> dom (pages w) \<and> b \<in> dom (pages w))
   \<and> (a' \<notin> dom (pages w) \<or> b' \<notin> dom (pages w) \<longrightarrow> link w a' b' = (Inl NotFound, w))"
  using reachable_links_closed [of w] delete_strips [of w d w'] link_needs_both [of w a b w'']
    link_not_found [of a' w b']
  unfolding links_closed_def by blast

theorem referential_integrity_witness:
  "reachable wiki_linked
   \<and> pages wiki_linked ''p1'' = Some ((page_cat ''p1'')\<lparr>links := {''p2''}\<rparr>)
   \<and> {''p2''} \<subseteq> dom (pages wiki_linked)
   \<and> fst (delete wiki_linked ''p2'') = Inr ()
   \<and> pages (snd (delete wiki_linked ''p2'')) ''p2'' = None
   \<and> pages (snd (delete wiki_linked ''p2'')) ''p1'' = Some (page_cat ''p1'')
   \<and> ''p2'' \<notin> links (page_cat ''p1'')
   \<and> fst (link wiki_linked ''p2'' ''p1'') = Inr ()
   \<and> ''p3'' \<notin> dom (pages wiki_linked)
   \<and> link wiki_linked ''p1'' ''p3'' = (Inl NotFound, wiki_linked)"
proof -
  have p: "pages wiki_linked ''p1'' = Some ((page_cat ''p1'')\<lparr>links := {''p2''}\<rparr>)"
    by (simp add: pages_wiki_linked)
  have d: "delete wiki_linked ''p2'' = (Inr (), snd (delete wiki_linked ''p2''))"
    by (simp add: delete_def get_or_raise_def pages_wiki_linked Let_def)
  have l: "link wiki_linked ''p2'' ''p1'' = (Inr (), snd (link wiki_linked ''p2'' ''p1''))"
    by (simp add: link_def get_or_raise_def pages_wiki_linked)
  have n: "''p3'' \<notin> dom (pages wiki_linked)"
    by (simp add: pages_wiki_linked)
  have df: "fst (delete wiki_linked ''p2'') = Inr ()"
    by (simp add: delete_def get_or_raise_def pages_wiki_linked Let_def)
  have lf: "fst (link wiki_linked ''p2'' ''p1'') = Inr ()"
    by (simp add: link_def get_or_raise_def pages_wiki_linked)
  have dp: "pages (snd (delete wiki_linked ''p2'')) ''p1'' = Some (page_cat ''p1'')"
    by (simp add: delete_def get_or_raise_def pages_wiki_linked Let_def discard_link_def page_cat_def)
  from referential_integrity [OF reachable_wiki_linked, of "''p1''"
      "(page_cat ''p1'')\<lparr>links := {''p2''}\<rparr>"
      "''p2''" "snd (delete wiki_linked ''p2'')" "''p2''" "''p1''"
      "snd (link wiki_linked ''p2'' ''p1'')" "''p1''" "''p3''"]
    p d l n df lf dp reachable_wiki_linked
  show ?thesis by simp
qed

subsection \<open>Absent titles\<close>

text \<open>
  Claim C1, as the code has it. For every title \<open>t\<close> that is not in the store,
  \<^verbatim>\<open>get(t)\<close>, \<^verbatim>\<open>update(t, ...)\<close>, \<^verbatim>\<open>delete(t)\<close>, \<^verbatim>\<open>link(t, x)\<close> and \<^verbatim>\<open>link(x, t)\<close> fail
  with \<open>NotFound\<close> and leave the store as it was. \<^verbatim>\<open>backlinks(t)\<close> does not fail: it
  never looks \<open>t\<close> up, and in a reachable store it returns the empty list.
\<close>

theorem not_found_on_absent:
  "reachable w \<Longrightarrow> pages w t = None \<Longrightarrow>
     get w t = Inl NotFound
   \<and> update w t c app tgs = (Inl NotFound, w)
   \<and> delete w t = (Inl NotFound, w)
   \<and> link w t x = (Inl NotFound, w)
   \<and> link w x t = (Inl NotFound, w)
   \<and> backlinks w t = Inr []"
proof -
  assume r: "reachable w" and t: "pages w t = None"
  have e: "{k \<in> dom (pages w). t \<in> links (the (pages w k))} = {}"
    using reachable_links_closed [OF r] t unfolding links_closed_def by fastforce
  have "backlinks w t = Inr []" unfolding backlinks_def e by simp
  moreover have "link w x t = (Inl NotFound, w)" using t by (intro link_not_found) auto
  ultimately show ?thesis using t
    by (simp add: get_def update_def delete_def link_def get_or_raise_def)
qed

theorem not_found_on_absent_witness:
  "reachable wiki_cat \<and> pages wiki_cat ''p2'' = None
   \<and> get wiki_cat ''p2'' = Inl NotFound
   \<and> update wiki_cat ''p2'' (Some ''dog'') None None = (Inl NotFound, wiki_cat)
   \<and> delete wiki_cat ''p2'' = (Inl NotFound, wiki_cat)
   \<and> link wiki_cat ''p2'' ''p1'' = (Inl NotFound, wiki_cat)
   \<and> link wiki_cat ''p1'' ''p2'' = (Inl NotFound, wiki_cat)
   \<and> backlinks wiki_cat ''p2'' = Inr []"
proof -
  have a: "pages wiki_cat ''p2'' = None" by (simp add: pages_wiki_cat)
  from not_found_on_absent [OF reachable_wiki_cat a, of "Some ''dog''" None None "''p1''"]
    a reachable_wiki_cat
  show ?thesis by simp
qed

text \<open>The claim as the specification words it fails: on the empty store, where no title
  is present, \<^verbatim>\<open>backlinks("ghost")\<close> returns the empty list.\<close>

theorem backlinks_absent_counterexample:
  "pages empty_wiki ''ghost'' = None \<and> backlinks empty_wiki ''ghost'' = Inr []
   \<and> backlinks empty_wiki ''ghost'' \<noteq> Inl NotFound"
  by (simp add: backlinks_def empty_wiki_def)

subsection \<open>Timestamps\<close>

lemma created_at_create:
  "pages w t = Some p \<Longrightarrow> pages (snd (create w k c tgs)) t = Some p' \<Longrightarrow>
     created_at p' = created_at p"
  by (auto simp: create_def Let_def split: if_splits)

lemma created_at_update:
  "pages w t = Some p \<Longrightarrow> pages (snd (update w k c app tgs)) t = Some p' \<Longrightarrow>
     created_at p' = created_at p"
  by (cases "pages w k"; cases c; cases app; cases tgs)
     (auto simp: update_def get_or_raise_def Let_def split: if_splits)

lemma created_at_delete:
  "pages w t = Some p \<Longrightarrow> pages (snd (delete w k)) t = Some p' \<Longrightarrow>
     created_at p' = created_at p"
  by (cases "pages w k")
     (auto simp: delete_def get_or_raise_def discard_link_def Let_def split: if_splits)

lemma created_at_link:
  "pages w t = Some p \<Longrightarrow> pages (snd (link w a b)) t = Some p' \<Longrightarrow>
     created_at p' = created_at p"
  by (cases "pages w a"; cases "pages w b") (auto simp: link_def get_or_raise_def split: if_splits)

lemma created_at_exec:
  "pages w t = Some p \<Longrightarrow> pages (exec cl w) t = Some p' \<Longrightarrow> created_at p' = created_at p"
  by (cases cl)
     (auto simp: set_iteration_def
        dest: created_at_create created_at_update created_at_delete created_at_link)

text \<open>
  Claim C5, as the code has it. No call changes the \<open>created_at\<close> of a page that is in the
  store before and after it. A successful \<^verbatim>\<open>create\<close> sets both timestamps of the new page
  to the current iteration, and a successful \<^verbatim>\<open>update\<close> sets \<open>updated_at\<close> to the current
  iteration whatever its arguments (also when only the tags change, or nothing).
  A successful \<^verbatim>\<open>link(a, b)\<close> adds \<open>b\<close> to the links of \<open>a\<close> and changes no other field of
  \<open>a\<close>: its \<open>updated_at\<close> stays as it was.
\<close>

theorem timestamps:
  "(pages w t = Some p \<and> pages (exec cl w) t = Some p' \<longrightarrow> created_at p' = created_at p)
   \<and> (create w k c tgs = (Inr q, w1) \<longrightarrow>
        pages w1 k = Some q \<and> created_at q = iteration w \<and> updated_at q = iteration w)
   \<and> (update w u c' app tgs' = (Inr q', w2) \<longrightarrow>
        pages w2 u = Some q' \<and> updated_at q' = iteration w)
   \<and> (pages w a = Some pa \<and> link w a b = (Inr (), w3) \<longrightarrow>
        pages w3 a = Some (pa\<lparr>links := insert b (links pa)\<rparr>))"
proof -
  have 1: "pages w t = Some p \<and> pages (exec cl w) t = Some p' \<longrightarrow> created_at p' = created_at p"
    using created_at_exec [of w t p cl p'] by blast
  have 2: "create w k c tgs = (Inr q, w1) \<longrightarrow>
        pages w1 k = Some q \<and> created_at q = iteration w \<and> updated_at q = iteration w"
    by (auto simp: create_def Let_def split: if_splits)
  have 3: "update w u c' app tgs' = (Inr q', w2) \<longrightarrow>
        pages w2 u = Some q' \<and> updated_at q' = iteration w"
    by (cases "pages w u") (auto simp: update_def get_or_raise_def Let_def)
  have 4: "pages w a = Some pa \<and> link w a b = (Inr (), w3) \<longrightarrow>
        pages w3 a = Some (pa\<lparr>links := insert b (links pa)\<rparr>)"
    by (cases "pages w b") (auto simp: link_def get_or_raise_def)
  from 1 2 3 4 show ?thesis by blast
qed

theorem timestamps_witness:
  "pages wiki_at5 ''p1'' = Some (page_cat ''p1'')
   \<and> pages (exec (Update ''p1'' None None (Some {''x''})) wiki_at5) ''p1''
        = Some ((page_cat ''p1'')\<lparr>tags := {''x''}, updated_at := 5\<rparr>)
   \<and> created_at ((page_cat ''p1'')\<lparr>tags := {''x''}, updated_at := 5\<rparr>)
        = created_at (page_cat ''p1'')
   \<and> fst (create wiki_at5 ''p3'' ''dog'' None)
        = Inr \<lparr>title = ''p3'', content = ''dog'', tags = {}, links = {},
               created_at = 5, updated_at = 5\<rparr>
   \<and> pages (snd (create wiki_at5 ''p3'' ''dog'' None)) ''p3''
        = Some \<lparr>title = ''p3'', content = ''dog'', tags = {}, links = {},
               created_at = 5, updated_at = 5\<rparr>
   \<and> fst (update wiki_at5 ''p1'' None None (Some {''x''}))
        = Inr ((page_cat ''p1'')\<lparr>tags := {''x''}, updated_at := 5\<rparr>)
   \<and> fst (link wiki_at5 ''p1'' ''p2'') = Inr ()
   \<and> pages (snd (link wiki_at5 ''p1'' ''p2'')) ''p1''
        = Some ((page_cat ''p1'')\<lparr>links := {''p2''}\<rparr>)"
proof -
  have h1: "pages wiki_at5 ''p1'' = Some (page_cat ''p1'')"
    by (simp add: pages_wiki_at5)
  have h3: "update wiki_at5 ''p1'' None None (Some {''x''})
      = (Inr ((page_cat ''p1'')\<lparr>tags := {''x''}, updated_at := 5\<rparr>),
         snd (update wiki_at5 ''p1'' None None (Some {''x''})))"
    by (simp add: update_def get_or_raise_def pages_wiki_at5 iteration_wiki_at5 Let_def)
  have h1b: "pages (exec (Update ''p1'' None None (Some {''x''})) wiki_at5) ''p1''
        = Some ((page_cat ''p1'')\<lparr>tags := {''x''}, updated_at := 5\<rparr>)"
    by (simp add: update_def get_or_raise_def pages_wiki_at5 iteration_wiki_at5 Let_def)
  have h2: "create wiki_at5 ''p3'' ''dog'' None
      = (Inr \<lparr>title = ''p3'', content = ''dog'', tags = {}, links = {},
              created_at = 5, updated_at = 5\<rparr>,
         snd (create wiki_at5 ''p3'' ''dog'' None))"
    by (simp add: create_def pages_wiki_at5 iteration_wiki_at5 Let_def)
  have h4: "link wiki_at5 ''p1'' ''p2'' = (Inr (), snd (link wiki_at5 ''p1'' ''p2''))"
    by (simp add: link_def get_or_raise_def pages_wiki_at5)
  have f2: "fst (create wiki_at5 ''p3'' ''dog'' None)
      = Inr \<lparr>title = ''p3'', content = ''dog'', tags = {}, links = {},
             created_at = 5, updated_at = 5\<rparr>"
    by (simp add: create_def pages_wiki_at5 iteration_wiki_at5 Let_def)
  have f3: "fst (update wiki_at5 ''p1'' None None (Some {''x''}))
      = Inr ((page_cat ''p1'')\<lparr>tags := {''x''}, updated_at := 5\<rparr>)"
    by (simp add: update_def get_or_raise_def pages_wiki_at5 iteration_wiki_at5 Let_def)
  have f4: "fst (link wiki_at5 ''p1'' ''p2'') = Inr ()"
    by (simp add: link_def get_or_raise_def pages_wiki_at5)
  from timestamps [where w = wiki_at5 and t = "''p1''" and p = "page_cat ''p1''"
      and cl = "Update ''p1'' None None (Some {''x''})"
      and p' = "(page_cat ''p1'')\<lparr>tags := {''x''}, updated_at := 5\<rparr>"
      and k = "''p3''" and c = "''dog''" and tgs = None
      and q = "\<lparr>title = ''p3'', content = ''dog'', tags = {}, links = {},
                created_at = 5, updated_at = 5\<rparr>"
      and ?w1.0 = "snd (create wiki_at5 ''p3'' ''dog'' None)"
      and u = "''p1''" and c' = None and app = None and tgs' = "Some {''x''}"
      and q' = "(page_cat ''p1'')\<lparr>tags := {''x''}, updated_at := 5\<rparr>"
      and ?w2.0 = "snd (update wiki_at5 ''p1'' None None (Some {''x''}))"
      and a = "''p1''" and pa = "page_cat ''p1''" and b = "''p2''"
      and ?w3.0 = "snd (link wiki_at5 ''p1'' ''p2'')"]
    h1 h1b h2 h3 h4 f2 f3 f4
  show ?thesis by (simp add: page_cat_def)
qed

text \<open>The claim as the specification words it fails for \<^verbatim>\<open>link\<close>: with two pages created
  at iteration 0 and the counter then set to 5, \<^verbatim>\<open>link("p1", "p2")\<close> succeeds and adds the
  edge, and \<open>updated_at\<close> of \<^verbatim>\<open>p1\<close> is still 0.\<close>

theorem link_timestamp_counterexample:
  "fst (link wiki_at5 ''p1'' ''p2'') = Inr ()
   \<and> iteration wiki_at5 = 5
   \<and> map_option links (pages (snd (link wiki_at5 ''p1'' ''p2'')) ''p1'') = Some {''p2''}
   \<and> map_option updated_at (pages (snd (link wiki_at5 ''p1'' ''p2'')) ''p1'') = Some 0
   \<and> map_option updated_at (pages (snd (link wiki_at5 ''p1'' ''p2'')) ''p1'')
       \<noteq> Some (iteration wiki_at5)"
  by (simp add: link_def get_or_raise_def pages_wiki_at5 iteration_wiki_at5 page_cat_def)

subsection \<open>Index/content coherence\<close>

lemma index_coherentI:
  assumes "\<And>tok. inverted_index w tok =
          (if containing (pages w) tok = {} then None else Some (containing (pages w) tok))"
    and "\<And>t. doc_lengths w t = map_option token_count (pages w t)"
    and "avg_doc_length w = (if pages w = Map.empty then 0 else mean_token_count (pages w))"
  shows "index_coherent w"
  unfolding index_coherent_def using assms by blast

lemma index_coherentD:
  assumes "index_coherent w"
  shows "inverted_index w tok =
          (if containing (pages w) tok = {} then None else Some (containing (pages w) tok))"
    and "doc_lengths w t = map_option token_count (pages w t)"
    and "avg_doc_length w = (if pages w = Map.empty then 0 else mean_token_count (pages w))"
  using assms unfolding index_coherent_def by blast+

lemma postings_coherent:
  "index_coherent w \<Longrightarrow>
     (case inverted_index w tok of None \<Rightarrow> {} | Some s \<Rightarrow> s) = containing (pages w) tok"
  by (simp add: index_coherentD(1))

lemma fold_add_posting:
  "fold (add_posting t) toks idx tok =
     (if tok \<in> set toks then Some (insert t (case idx tok of None \<Rightarrow> {} | Some s \<Rightarrow> s))
      else idx tok)"
  by (induction toks arbitrary: idx) (auto simp: add_posting_def)

lemma inverted_index_remove:
  "inverted_index (remove_from_index w t) tok =
     (let x = (case inverted_index w tok of None \<Rightarrow> {} | Some s \<Rightarrow> s)
      in if inverted_index w tok = None \<or> x - {t} = {} then None else Some (x - {t}))"
  by (simp add: remove_from_index_def Let_def split: option.splits)

lemma doc_lengths_remove: "doc_lengths (remove_from_index w t) = (doc_lengths w)(t := None)"
  by (simp add: remove_from_index_def Let_def)

lemma if_swap: "(if \<not> b then x else y) = (if b then y else x)"
  by simp

lemma avg_of_record:
  "avg_doc_length (w\<lparr>doc_lengths := a, inverted_index := b, avg_doc_length := c\<rparr>) = c"
  by simp

lemma avg_remove:
  "avg_doc_length (remove_from_index w t) =
     (if dom ((doc_lengths w)(t := None)) \<noteq> {} then mean_length ((doc_lengths w)(t := None)) else 0)"
  unfolding remove_from_index_def Let_def by (rule avg_of_record)

lemma inverted_index_index_page:
  "inverted_index (index_page w t c) tok =
     (let x = (case inverted_index w tok of None \<Rightarrow> {} | Some s \<Rightarrow> s)
      in if tok \<in> set (tokenize c) then Some (insert t (x - {t}))
         else if inverted_index w tok = None \<or> x - {t} = {} then None else Some (x - {t}))"
  by (simp add: index_page_def Let_def fold_add_posting inverted_index_remove split: option.splits)

lemma doc_lengths_index_page:
  "doc_lengths (index_page w t c) = (doc_lengths w)(t \<mapsto> length (tokenize c))"
  by (simp add: index_page_def Let_def doc_lengths_remove)

lemma avg_index_page:
  "avg_doc_length (index_page w t c) = mean_length ((doc_lengths w)(t \<mapsto> length (tokenize c)))"
  by (simp add: index_page_def Let_def doc_lengths_remove)

lemma mean_length_pages:
  assumes "\<And>k. dl k = map_option token_count (ps k)"
  shows "mean_length dl = mean_token_count ps"
proof -
  have d: "dom dl = dom ps" using assms by (auto simp: dom_def)
  have "(\<Sum>t\<in>dom ps. the (dl t)) = (\<Sum>t\<in>dom ps. token_count (the (ps t)))"
    by (rule sum.cong) (auto simp: assms)
  thus ?thesis by (simp add: mean_length_def mean_token_count_def d)
qed

lemma mean_token_count_cong:
  assumes "dom ps' = dom ps"
    and "\<And>k. k \<in> dom ps \<Longrightarrow> token_count (the (ps' k)) = token_count (the (ps k))"
  shows "mean_token_count ps' = mean_token_count ps"
proof -
  have "(\<Sum>t\<in>dom ps. token_count (the (ps' t))) = (\<Sum>t\<in>dom ps. token_count (the (ps t)))"
    by (rule sum.cong) (auto simp: assms(2))
  thus ?thesis by (simp add: mean_token_count_def assms(1))
qed

lemma containing_upd:
  "content page = c \<Longrightarrow>
     containing (ps(t \<mapsto> page)) tok =
       (if tok \<in> set (tokenize c) then insert t (containing ps tok - {t})
        else containing ps tok - {t})"
  by (auto simp: containing_def)

lemma token_count_discard_link [simp]: "token_count (discard_link t p) = token_count p"
  by (simp add: token_count_def discard_link_def)

lemma containing_del: "containing (ps(t := None)) tok = containing ps tok - {t}"
  by (auto simp: containing_def)

lemma containing_same_content:
  assumes a: "\<And>k. map_option content (ps' k) = map_option content (ps k)"
  shows "containing ps' tok = containing ps tok"
proof -
  have "\<And>k p. ps k = Some p \<Longrightarrow> \<exists>p'. ps' k = Some p' \<and> content p' = content p"
    using a by (metis (no_types) map_option_eq_Some)
  moreover have "\<And>k p. ps' k = Some p \<Longrightarrow> \<exists>p'. ps k = Some p' \<and> content p' = content p"
    using a by (metis (no_types) map_option_eq_Some)
  ultimately show ?thesis unfolding containing_def by fastforce
qed

lemma index_page_coherent:
  assumes idx: "\<And>tok. inverted_index w tok =
       (if containing ps tok = {} then None else Some (containing ps tok))"
    and dl: "\<And>k. doc_lengths w k = map_option token_count (ps k)"
    and pg: "pages w = ps(t \<mapsto> page)" and c: "content page = c"
  shows "index_coherent (index_page w t c)"
proof (rule index_coherentI)
  have x: "(case inverted_index w tok of None \<Rightarrow> {} | Some s \<Rightarrow> s) = containing ps tok" for tok
    by (simp add: idx)
  have pg': "pages (index_page w t c) = ps(t \<mapsto> page)"
    by (simp add: pg)
  have 2: "doc_lengths (index_page w t c) k = map_option token_count ((ps(t \<mapsto> page)) k)" for k
    using dl c by (simp add: doc_lengths_index_page token_count_def)
  show "inverted_index (index_page w t c) tok =
      (if containing (pages (index_page w t c)) tok = {} then None
       else Some (containing (pages (index_page w t c)) tok))" for tok
    unfolding pg' by (simp add: inverted_index_index_page x idx containing_upd [OF c] Let_def)
  show "doc_lengths (index_page w t c) k = map_option token_count (pages (index_page w t c) k)" for k
    unfolding pg' by (rule 2)
  have ne: "ps(t \<mapsto> page) \<noteq> Map.empty" by simp
  have "avg_doc_length (index_page w t c) = mean_token_count (ps(t \<mapsto> page))"
    unfolding avg_index_page doc_lengths_index_page [symmetric]
    by (rule mean_length_pages) (rule 2)
  thus "avg_doc_length (index_page w t c) =
      (if pages (index_page w t c) = Map.empty then 0
       else mean_token_count (pages (index_page w t c)))"
    unfolding pg' using ne by (simp only: if_False)
qed

lemma index_coherent_create: "index_coherent w \<Longrightarrow> index_coherent (snd (create w t c tgs))"
proof (cases "t \<in> dom (pages w)")
  case True
  assume "index_coherent w"
  with True show ?thesis by (simp add: create_def)
next
  case False
  assume a: "index_coherent w"
  let ?page = "\<lparr>title = t, content = c, tags = (case tgs of None \<Rightarrow> {} | Some ts \<Rightarrow> ts),
      links = {}, created_at = iteration w, updated_at = iteration w\<rparr>"
  have l: "snd (create w t c tgs) = index_page (w\<lparr>pages := (pages w)(t \<mapsto> ?page)\<rparr>) t c"
    using False by (simp add: create_def Let_def)
  show ?thesis unfolding l
    by (rule index_page_coherent [where ps = "pages w" and page = ?page])
       (simp_all add: index_coherentD [OF a])
qed

lemma update_as_index_page:
  "pages w t = Some p \<Longrightarrow>
     \<exists>q. snd (update w t c app tgs) = index_page (w\<lparr>pages := (pages w)(t \<mapsto> q)\<rparr>) t (content q)"
  unfolding update_def get_or_raise_def Let_def
  by (simp only: option.case sum.case snd_conv) blast

lemma index_coherent_update: "index_coherent w \<Longrightarrow> index_coherent (snd (update w t c app tgs))"
proof (cases "pages w t")
  case None
  assume "index_coherent w"
  with None show ?thesis by (simp add: update_def get_or_raise_def)
next
  case (Some p)
  assume a: "index_coherent w"
  obtain q where l: "snd (update w t c app tgs)
      = index_page (w\<lparr>pages := (pages w)(t \<mapsto> q)\<rparr>) t (content q)"
    using update_as_index_page [OF Some] by blast
  show ?thesis unfolding l
    by (rule index_page_coherent [where ps = "pages w" and page = q])
       (simp_all add: index_coherentD [OF a])
qed

lemma index_coherent_same_content:
  assumes a: "index_coherent w"
    and i: "inverted_index w' = inverted_index w" and d: "doc_lengths w' = doc_lengths w"
    and v: "avg_doc_length w' = avg_doc_length w"
    and dm: "dom (pages w') = dom (pages w)"
    and ct: "\<And>k. map_option content (pages w' k) = map_option content (pages w k)"
  shows "index_coherent w'"
proof (rule index_coherentI)
  have tc: "map_option token_count (pages w' k) = map_option token_count (pages w k)" for k
    using ct [of k] by (cases "pages w' k"; cases "pages w k") (simp_all add: token_count_def)
  have tc': "token_count (the (pages w' k)) = token_count (the (pages w k))" if "k \<in> dom (pages w)" for k
    using tc [of k] that dm by (cases "pages w' k"; cases "pages w k") auto
  show "inverted_index w' tok =
      (if containing (pages w') tok = {} then None else Some (containing (pages w') tok))" for tok
    unfolding i containing_same_content [of "pages w'" "pages w", OF ct]
    by (rule index_coherentD(1) [OF a])
  show "doc_lengths w' k = map_option token_count (pages w' k)" for k
    unfolding d tc by (rule index_coherentD(2) [OF a])
  have e: "(pages w' = Map.empty) = (pages w = Map.empty)"
    using dm by (metis dom_eq_empty_conv)
  have mt: "mean_token_count (pages w') = mean_token_count (pages w)"
    by (rule mean_token_count_cong [OF dm]) (rule tc')
  show "avg_doc_length w' = (if pages w' = Map.empty then 0 else mean_token_count (pages w'))"
    unfolding v e mt by (rule index_coherentD(3) [OF a])
qed

lemma index_coherent_link: "index_coherent w \<Longrightarrow> index_coherent (snd (link w a b))"
proof (cases "pages w a"; cases "pages w b")
  fix p q assume a: "index_coherent w" and pa: "pages w a = Some p" and pb: "pages w b = Some q"
  have l: "snd (link w a b) = w\<lparr>pages := (pages w)(a \<mapsto> p\<lparr>links := insert b (links p)\<rparr>)\<rparr>"
    using pa pb by (simp add: link_def get_or_raise_def)
  show ?thesis unfolding l
    by (rule index_coherent_same_content [OF a]) (use pa in \<open>auto\<close>)
qed (simp_all add: link_def get_or_raise_def)

lemma index_coherent_remove:
  assumes a: "index_coherent w"
  shows "index_coherent ((remove_from_index w t)\<lparr>pages := (pages w)(t := None)\<rparr>)"
proof (rule index_coherentI)
  let ?w' = "(remove_from_index w t)\<lparr>pages := (pages w)(t := None)\<rparr>"
  have pg: "pages ?w' = (pages w)(t := None)" by simp
  have ii: "inverted_index ?w' = inverted_index (remove_from_index w t)" by simp
  have dd: "doc_lengths ?w' = (doc_lengths w)(t := None)" by (simp add: doc_lengths_remove)
  have av: "avg_doc_length ?w' = avg_doc_length (remove_from_index w t)" by simp
  have 2: "((doc_lengths w)(t := None)) k = map_option token_count (((pages w)(t := None)) k)" for k
    by (simp add: index_coherentD(2) [OF a])
  show "inverted_index ?w' tok =
      (if containing (pages ?w') tok = {} then None else Some (containing (pages ?w') tok))" for tok
    unfolding pg ii
    by (auto simp add: inverted_index_remove postings_coherent [OF a] containing_del Let_def
          index_coherentD(1) [OF a])
  show "doc_lengths ?w' k = map_option token_count (pages ?w' k)" for k
    unfolding pg dd by (rule 2)
  have m: "mean_length ((doc_lengths w)(t := None)) = mean_token_count ((pages w)(t := None))"
    by (rule mean_length_pages) (rule 2)
  have e: "(dom ((doc_lengths w)(t := None)) \<noteq> {}) = ((pages w)(t := None) \<noteq> Map.empty)"
  proof -
    have "dom ((doc_lengths w)(t := None)) = dom ((pages w)(t := None))"
      using 2 by (auto simp: dom_def)
    thus ?thesis by (metis dom_eq_empty_conv)
  qed
  show "avg_doc_length ?w' = (if pages ?w' = Map.empty then 0 else mean_token_count (pages ?w'))"
    unfolding pg av avg_remove e m by (rule if_swap)
qed

lemma index_coherent_delete: "index_coherent w \<Longrightarrow> index_coherent (snd (delete w t))"
proof (cases "pages w t")
  case None
  assume "index_coherent w"
  with None show ?thesis by (simp add: delete_def get_or_raise_def)
next
  case (Some p)
  assume a: "index_coherent w"
  let ?w1 = "w\<lparr>pages := \<lambda>k. map_option (discard_link t) (pages w k)\<rparr>"
  have l: "snd (delete w t) = (remove_from_index ?w1 t)\<lparr>pages := (pages ?w1)(t := None)\<rparr>"
    using Some by (simp add: delete_def get_or_raise_def Let_def)
  have "index_coherent ?w1"
    by (rule index_coherent_same_content [OF a])
       (auto simp: option.map_comp comp_def discard_link_def dom_def)
  thus ?thesis unfolding l by (rule index_coherent_remove)
qed

lemma index_coherent_exec: "index_coherent w \<Longrightarrow> index_coherent (exec cl w)"
  by (cases cl)
     (simp_all add: index_coherent_create index_coherent_update index_coherent_delete index_coherent_link,
      simp add: index_coherent_def set_iteration_def)

lemma reachable_index_coherent: "reachable w \<Longrightarrow> index_coherent w"
  by (induction rule: reachable.induct)
     (simp_all add: index_coherent_exec, simp add: index_coherent_def empty_wiki_def containing_def)

lemma delete_removes_page: "delete w d = (Inr (), w') \<Longrightarrow> pages w' d = None \<and> w' = snd (delete w d)"
  by (auto simp: delete_def get_or_raise_def Let_def split: option.splits)

lemma absent_not_indexed:
  assumes a: "index_coherent w" and n: "pages w t = None"
  shows "doc_lengths w t = None \<and> (\<forall>tok s. inverted_index w tok = Some s \<longrightarrow> t \<notin> s)"
proof -
  have "t \<notin> containing (pages w) tok" for tok
    using n by (simp add: containing_def)
  hence "\<forall>tok s. inverted_index w tok = Some s \<longrightarrow> t \<notin> s"
    using index_coherentD(1) [OF a] by (metis option.distinct(1) option.inject)
  thus ?thesis using index_coherentD(2) [OF a, of t] n by simp
qed

text \<open>
  Claim C4. Index/content coherence is an invariant of the store. In every reachable
  state (so after any create, update or delete): a posting list holds exactly the live
  pages whose current content contains the token and is never empty, and a token with no
  posting list occurs in no page; the length record of a live page is the token count of
  its current content; a title that is not live has no length record and is in no
  posting list, in particular the title just deleted; and the stored average is the mean
  of the token counts of the live pages, 0 when there is none (over the reals).
\<close>

theorem index_content_coherence:
  "reachable w \<Longrightarrow>
     (inverted_index w tok = Some s \<longrightarrow> s = containing (pages w) tok \<and> s \<noteq> {})
   \<and> (inverted_index w tok0 = None \<longrightarrow> containing (pages w) tok0 = {})
   \<and> (pages w t = Some p \<longrightarrow> doc_lengths w t = Some (token_count p))
   \<and> (pages w t0 = None \<longrightarrow>
        doc_lengths w t0 = None \<and> (\<forall>tok' s'. inverted_index w tok' = Some s' \<longrightarrow> t0 \<notin> s'))
   \<and> (delete w d = (Inr (), w') \<longrightarrow>
        doc_lengths w' d = None \<and> (\<forall>tok' s'. inverted_index w' tok' = Some s' \<longrightarrow> d \<notin> s'))
   \<and> avg_doc_length w = (if pages w = Map.empty then 0 else mean_token_count (pages w))"
proof -
  assume r: "reachable w"
  note a = reachable_index_coherent [OF r]
  have 1: "inverted_index w tok = Some s \<longrightarrow> s = containing (pages w) tok \<and> s \<noteq> {}"
    using index_coherentD(1) [OF a, of tok] by (auto split: if_splits)
  have 2: "inverted_index w tok0 = None \<longrightarrow> containing (pages w) tok0 = {}"
    using index_coherentD(1) [OF a, of tok0] by (auto split: if_splits)
  have 3: "pages w t = Some p \<longrightarrow> doc_lengths w t = Some (token_count p)"
    using index_coherentD(2) [OF a, of t] by simp
  have 4: "pages w t0 = None \<longrightarrow>
        doc_lengths w t0 = None \<and> (\<forall>tok' s'. inverted_index w tok' = Some s' \<longrightarrow> t0 \<notin> s')"
    using absent_not_indexed [OF a] by blast
  have 5: "delete w d = (Inr (), w') \<longrightarrow>
        doc_lengths w' d = None \<and> (\<forall>tok' s'. inverted_index w' tok' = Some s' \<longrightarrow> d \<notin> s')"
  proof
    assume d: "delete w d = (Inr (), w')"
    have c': "index_coherent w'"
      using delete_removes_page [OF d] index_coherent_delete [OF a, of d] by simp
    have n: "pages w' d = None" using delete_removes_page [OF d] by blast
    show "doc_lengths w' d = None \<and> (\<forall>tok' s'. inverted_index w' tok' = Some s' \<longrightarrow> d \<notin> s')"
      by (rule absent_not_indexed [OF c' n])
  qed
  from 1 2 3 4 5 index_coherentD(3) [OF a] show ?thesis by blast
qed

lemma index_wiki_two:
  "inverted_index wiki_two ''cat'' = Some {''p1'', ''p2''}"
  "inverted_index wiki_two ''dog'' = None"
  "doc_lengths wiki_two = [''p1'' \<mapsto> 1, ''p2'' \<mapsto> 1]"
  by (auto simp add: wiki_two_def wiki_cat_def create_def empty_wiki_def index_page_def
        remove_from_index_def Let_def tokenize_cat add_posting_def)

lemma avg_wiki_two: "avg_doc_length wiki_two = 1"
  by (simp add: wiki_two_def wiki_cat_def create_def empty_wiki_def index_page_def
        remove_from_index_def Let_def tokenize_cat add_posting_def mean_length_def)

lemma index_after_delete:
  "inverted_index (snd (delete wiki_two ''p2'')) ''cat'' = Some {''p1''}"
  by (simp add: delete_def get_or_raise_def pages_wiki_two Let_def remove_from_index_def
        index_wiki_two insert_Diff_if)

theorem index_content_coherence_witness:
  "reachable wiki_two
   \<and> inverted_index wiki_two ''cat'' = Some {''p1'', ''p2''}
   \<and> containing (pages wiki_two) ''cat'' = {''p1'', ''p2''}
   \<and> inverted_index wiki_two ''dog'' = None
   \<and> containing (pages wiki_two) ''dog'' = {}
   \<and> pages wiki_two ''p1'' = Some (page_cat ''p1'')
   \<and> doc_lengths wiki_two ''p1'' = Some (token_count (page_cat ''p1''))
   \<and> pages wiki_two ''p3'' = None
   \<and> doc_lengths wiki_two ''p3'' = None
   \<and> ''p3'' \<notin> {''p1'', ''p2''}
   \<and> fst (delete wiki_two ''p2'') = Inr ()
   \<and> doc_lengths (snd (delete wiki_two ''p2'')) ''p2'' = None
   \<and> inverted_index (snd (delete wiki_two ''p2'')) ''cat'' = Some {''p1''}
   \<and> ''p2'' \<notin> {''p1''}
   \<and> avg_doc_length wiki_two = 1
   \<and> mean_token_count (pages wiki_two) = 1"
proof -
  have p1: "pages wiki_two ''p1'' = Some (page_cat ''p1'')" by (simp add: pages_wiki_two)
  have p3: "pages wiki_two ''p3'' = None" by (simp add: pages_wiki_two)
  have d: "delete wiki_two ''p2'' = (Inr (), snd (delete wiki_two ''p2''))"
    by (simp add: delete_def get_or_raise_def pages_wiki_two Let_def)
  have df: "fst (delete wiki_two ''p2'') = Inr ()"
    by (simp add: delete_def get_or_raise_def pages_wiki_two Let_def)
  have ne: "pages wiki_two \<noteq> Map.empty" using p1 by auto
  from index_content_coherence [OF reachable_wiki_two, where tok = "''cat''" and s = "{''p1'', ''p2''}"
      and ?tok0.0 = "''dog''" and t = "''p1''" and p = "page_cat ''p1''" and ?t0.0 = "''p3''"
      and d = "''p2''" and w' = "snd (delete wiki_two ''p2'')"]
    index_wiki_two(1,2) avg_wiki_two p1 p3 d df ne reachable_wiki_two index_after_delete
  show ?thesis by simp
qed

subsection \<open>Search: the accumulated scores\<close>

lemma finite_pages_exec: "finite (dom (pages w)) \<Longrightarrow> finite (dom (pages (exec cl w)))"
proof (cases cl)
  case (Create t c tgs)
  assume f: "finite (dom (pages w))"
  have "dom (pages (snd (create w t c tgs))) \<subseteq> insert t (dom (pages w))"
    by (auto simp: create_def Let_def split: if_splits)
  thus ?thesis using f Create by (simp add: finite_subset)
next
  case (Update t c app tgs)
  assume f: "finite (dom (pages w))"
  have "dom (pages (snd (update w t c app tgs))) \<subseteq> insert t (dom (pages w))"
    by (cases "pages w t") (auto simp: update_def get_or_raise_def Let_def split: if_splits)
  thus ?thesis using f Update by (simp add: finite_subset)
next
  case (Delete t)
  assume f: "finite (dom (pages w))"
  have "dom (pages (snd (delete w t))) \<subseteq> dom (pages w)"
    by (cases "pages w t") (auto simp: delete_def get_or_raise_def Let_def split: if_splits)
  thus ?thesis using f Delete by (simp add: finite_subset)
next
  case (Link a b)
  assume f: "finite (dom (pages w))"
  have "dom (pages (snd (link w a b))) \<subseteq> insert a (dom (pages w))"
    by (cases "pages w a"; cases "pages w b") (auto simp: link_def get_or_raise_def split: if_splits)
  thus ?thesis using f Link by (simp add: finite_subset)
next
  case (SetIteration i)
  assume "finite (dom (pages w))"
  thus ?thesis using SetIteration by (simp add: set_iteration_def)
qed

lemma reachable_finite_pages: "reachable w \<Longrightarrow> finite (dom (pages w))"
  by (induction rule: reachable.induct) (simp_all add: finite_pages_exec, simp add: empty_wiki_def)

lemma score_of_add_score:
  "score_of (add_score scores t x) k = score_of scores k + (if k = t then x else 0)"
  by (induction scores t x rule: add_score.induct) (auto simp: score_of_def)

lemma keys_add_score: "fst ` set (add_score scores t x) = insert t (fst ` set scores)"
  by (induction scores t x rule: add_score.induct) auto

lemma distinct_add_score:
  "distinct (map fst scores) \<Longrightarrow> distinct (map fst (add_score scores t x))"
proof (induction scores t x rule: add_score.induct)
  case (1 t x)
  show ?case by simp
next
  case (2 k v rest t x)
  have "fst ` set (add_score rest t x) = insert t (fst ` set rest)" by (rule keys_add_score)
  with 2 show ?case by auto
qed

lemma score_docs_ok:
  assumes "set ts \<subseteq> dom (pages w)"
  shows "\<exists>scores'. score_docs w term idf_v ts scores = Inr scores'
     \<and> fst ` set scores' = fst ` set scores \<union> set ts
     \<and> (distinct (map fst scores) \<longrightarrow> distinct (map fst scores'))
     \<and> (\<forall>k. score_of scores' k = score_of scores k
           + (\<Sum>t\<leftarrow>ts. if t = k then contribution w term idf_v t (the (pages w t)) else 0))"
  using assms
proof (induction ts arbitrary: scores)
  case Nil
  show ?case by simp
next
  case (Cons t ts)
  from Cons.prems obtain page where pg: "pages w t = Some page" by auto
  let ?sc = "add_score scores t (contribution w term idf_v t page)"
  from Cons.prems have "set ts \<subseteq> dom (pages w)" by simp
  from Cons.IH [OF this, of ?sc] obtain scores' where
    r: "score_docs w term idf_v ts ?sc = Inr scores'"
    and k: "fst ` set scores' = fst ` set ?sc \<union> set ts"
    and d: "distinct (map fst ?sc) \<longrightarrow> distinct (map fst scores')"
    and v: "\<forall>k. score_of scores' k = score_of ?sc k
           + (\<Sum>t\<leftarrow>ts. if t = k then contribution w term idf_v t (the (pages w t)) else 0)"
    by blast
  have "score_docs w term idf_v (t # ts) scores = Inr scores'" using pg r by simp
  moreover have "fst ` set scores' = fst ` set scores \<union> set (t # ts)"
    using k by (simp add: keys_add_score)
  moreover have "distinct (map fst scores) \<longrightarrow> distinct (map fst scores')"
    using d distinct_add_score by blast
  moreover have "\<forall>k. score_of scores' k = score_of scores k
           + (\<Sum>t\<leftarrow>t # ts. if t = k then contribution w term idf_v t (the (pages w t)) else 0)"
    using v pg by (simp add: score_of_add_score)
  ultimately show ?case by blast
qed

lemma sum_list_single:
  "distinct ts \<Longrightarrow> (\<Sum>t\<leftarrow>ts. if t = k then f t else (0::real)) = (if k \<in> set ts then f k else 0)"
  by (induction ts) auto

lemma contribution_coherent:
  assumes a: "index_coherent w" and i: "inverted_index w term = Some s" and k: "k \<in> s"
  shows "k \<in> dom (pages w)"
    and "contribution w term (idf (card (dom (pages w))) (card s)) k (the (pages w k))
           = term_score w k term"
proof -
  have "s = containing (pages w) term"
    using index_coherentD(1) [OF a, of "term"] i by (auto split: if_splits)
  with k obtain p where p: "pages w k = Some p" by (auto simp: containing_def)
  thus "k \<in> dom (pages w)" by auto
  have "doc_lengths w k = Some (token_count p)"
    using index_coherentD(2) [OF a, of k] p by simp
  thus "contribution w term (idf (card (dom (pages w))) (card s)) k (the (pages w k))
           = term_score w k term"
    using i k p by (simp add: contribution_def term_score_def Let_def)
qed

lemma posting_finite:
  assumes a: "index_coherent w" and f: "finite (dom (pages w))"
    and i: "inverted_index w term = Some s"
  shows "finite s"
proof -
  have "s \<subseteq> dom (pages w)" using contribution_coherent(1) [OF a i] by blast
  thus ?thesis using f by (rule finite_subset)
qed

lemma score_terms_ok:
  assumes a: "index_coherent w" and f: "finite (dom (pages w))" and e: "enumerates enum"
  shows "\<exists>scores'. score_terms enum w terms scores = Inr scores'
     \<and> fst ` set scores' \<subseteq> fst ` set scores \<union> dom (pages w)
     \<and> (distinct (map fst scores) \<longrightarrow> distinct (map fst scores'))
     \<and> (\<forall>k. score_of scores' k = score_of scores k + (\<Sum>term\<leftarrow>terms. term_score w k term))"
proof (induction terms arbitrary: scores)
  case Nil
  show ?case by simp
next
  case (Cons tm terms)
  show ?case
  proof (cases "inverted_index w tm")
    case None
    from Cons.IH [of scores] obtain scores' where
      r: "score_terms enum w terms scores = Inr scores'"
      and k: "fst ` set scores' \<subseteq> fst ` set scores \<union> dom (pages w)"
      and d: "distinct (map fst scores) \<longrightarrow> distinct (map fst scores')"
      and v: "\<forall>k. score_of scores' k = score_of scores k + (\<Sum>term\<leftarrow>terms. term_score w k term)"
      by blast
    have "score_terms enum w (tm # terms) scores = Inr scores'" using None r by simp
    moreover have "\<forall>k. score_of scores' k
        = score_of scores k + (\<Sum>term\<leftarrow>tm # terms. term_score w k term)"
      using v None by (simp add: term_score_def)
    ultimately show ?thesis using k d by blast
  next
    case (Some s)
    let ?idf = "idf (card (dom (pages w))) (card s)"
    have fs: "finite s" by (rule posting_finite [OF a f Some])
    have es: "set (enum s) = s" and ed: "distinct (enum s)"
      using e fs by (simp_all add: enumerates_def)
    have sub: "set (enum s) \<subseteq> dom (pages w)"
      unfolding es using contribution_coherent(1) [OF a Some] by blast
    from score_docs_ok [OF sub, of tm ?idf scores] obtain sc1 where
      r1: "score_docs w tm ?idf (enum s) scores = Inr sc1"
      and k1: "fst ` set sc1 = fst ` set scores \<union> set (enum s)"
      and d1: "distinct (map fst scores) \<longrightarrow> distinct (map fst sc1)"
      and v1: "\<forall>k. score_of sc1 k = score_of scores k
           + (\<Sum>t\<leftarrow>enum s. if t = k then contribution w tm ?idf t (the (pages w t)) else 0)"
      by blast
    have c1: "(\<Sum>t\<leftarrow>enum s. if t = k then contribution w tm ?idf t (the (pages w t)) else 0)
        = term_score w k tm" for k
    proof (cases "k \<in> s")
      case True
      thus ?thesis
        using contribution_coherent(2) [OF a Some True] by (simp add: sum_list_single [OF ed] es)
    next
      case False
      thus ?thesis using Some by (simp add: sum_list_single [OF ed] es term_score_def)
    qed
    from Cons.IH [of sc1] obtain scores' where
      r: "score_terms enum w terms sc1 = Inr scores'"
      and k: "fst ` set scores' \<subseteq> fst ` set sc1 \<union> dom (pages w)"
      and d: "distinct (map fst sc1) \<longrightarrow> distinct (map fst scores')"
      and v: "\<forall>k. score_of scores' k = score_of sc1 k + (\<Sum>term\<leftarrow>terms. term_score w k term)"
      by blast
    have "score_terms enum w (tm # terms) scores = Inr scores'" using Some r1 r by simp
    moreover have "fst ` set scores' \<subseteq> fst ` set scores \<union> dom (pages w)"
      using k k1 sub by blast
    moreover have "distinct (map fst scores) \<longrightarrow> distinct (map fst scores')"
      using d d1 by blast
    moreover have "\<forall>k. score_of scores' k
        = score_of scores k + (\<Sum>term\<leftarrow>tm # terms. term_score w k term)"
      using v v1 c1 by simp
    ultimately show ?thesis by blast
  qed
qed

lemma build_results_ok:
  "fst ` set ranked \<subseteq> dom (pages w) \<Longrightarrow>
     build_results w tokens ranked = Inr (map (result_row w tokens) ranked)"
  by (induction ranked) (auto simp: result_row_def)

lemma set_py_slice_to: "set (py_slice_to xs k) \<subseteq> set xs"
  by (auto simp: py_slice_to_def dest: in_set_takeD)

lemma search_shape:
  assumes r: "reachable w" and e: "enumerates enum"
    and q: "tokenize query \<noteq> []" and ne: "pages w \<noteq> Map.empty"
  shows "\<exists>scores. distinct (map fst scores)
     \<and> (\<forall>x\<in>set scores. snd x = code_score w query (fst x) \<and> fst x \<in> dom (pages w))
     \<and> search enum w query top_k =
          Inr (map (result_row w (tokenize query))
                 (py_slice_to (sort_key (\<lambda>x. - snd x) scores) top_k))"
proof -
  note a = reachable_index_coherent [OF r] and f = reachable_finite_pages [OF r]
  from score_terms_ok [OF a f e, of "tokenize query" "[]"] obtain scores where
    st: "score_terms enum w (tokenize query) [] = Inr scores"
    and k: "fst ` set scores \<subseteq> dom (pages w)"
    and d: "distinct (map fst scores)"
    and v: "\<forall>k. score_of scores k = code_score w query k"
    by (auto simp: score_of_def code_score_def)
  let ?ranked = "py_slice_to (sort_key (\<lambda>x. - snd x) scores) top_k"
  have "set ?ranked \<subseteq> set scores" using set_py_slice_to [of "sort_key (\<lambda>x. - snd x) scores" top_k] by simp
  hence "fst ` set ?ranked \<subseteq> dom (pages w)" using k by blast
  hence b: "build_results w (tokenize query) ?ranked = Inr (map (result_row w (tokenize query)) ?ranked)"
    by (rule build_results_ok)
  have s: "search enum w query top_k = Inr (map (result_row w (tokenize query)) ?ranked)"
    using q ne st b by (simp add: search_def Let_def)
  have "snd x = code_score w query (fst x) \<and> fst x \<in> dom (pages w)" if "x \<in> set scores" for x
  proof -
    have "map_of scores (fst x) = Some (snd x)" using d that by (cases x) simp
    hence "score_of scores (fst x) = snd x" by (simp add: score_of_def)
    thus ?thesis using v k that by auto
  qed
  thus ?thesis using d s by blast
qed

lemma round_half_even_mono: "x \<le> y \<Longrightarrow> round_half_even x \<le> round_half_even y"
proof -
  assume xy: "x \<le> y"
  have fl: "\<lfloor>x\<rfloor> \<le> \<lfloor>y\<rfloor>" using xy by (rule floor_mono)
  have lo: "\<lfloor>y\<rfloor> \<le> round_half_even y" by (simp add: round_half_even_def Let_def)
  have hi: "round_half_even x \<le> \<lfloor>x\<rfloor> + 1" by (simp add: round_half_even_def Let_def)
  show ?thesis
  proof (cases "\<lfloor>x\<rfloor> = \<lfloor>y\<rfloor>")
    case True
    thus ?thesis using xy by (auto simp: round_half_even_def Let_def)
  next
    case False
    hence "\<lfloor>x\<rfloor> + 1 \<le> \<lfloor>y\<rfloor>" using fl by simp
    thus ?thesis using lo hi by linarith
  qed
qed

lemma py_round3_mono: "x \<le> y \<Longrightarrow> py_round3 x \<le> py_round3 y"
  using round_half_even_mono [of "x * 1000" "y * 1000"]
  by (simp add: py_round3_def divide_right_mono)

lemma ranked_descending:
  fixes scores :: "(string \<times> real) list"
  shows "sorted_wrt (\<lambda>a b. b \<le> a)
    (map snd (py_slice_to (sort_key (\<lambda>x. - snd x) scores) top_k))"
proof -
  have "sorted (map (\<lambda>x. - snd x) (sort_key (\<lambda>x. - snd x) scores))" by (rule sorted_sort_key)
  hence "sorted_wrt (\<lambda>a b. - snd a \<le> - snd b) (sort_key (\<lambda>x. - snd x) scores)"
    by (simp only: sorted_wrt_map)
  hence "sorted_wrt (\<lambda>a b. snd b \<le> snd a) (sort_key (\<lambda>x. - snd x) scores)"
    by (rule sorted_wrt_mono_rel [rotated]) simp
  hence "sorted_wrt (\<lambda>a b. snd b \<le> snd a) (py_slice_to (sort_key (\<lambda>x. - snd x) scores) top_k)"
    unfolding py_slice_to_def by (simp add: sorted_wrt_take)
  thus ?thesis by (simp add: sorted_wrt_map)
qed

subsection \<open>Search: rounding and the value of \<open>ln (4/3)\<close>\<close>

lemma exp_taylor4:
  fixes x :: real
  assumes "0 \<le> x" "x \<le> 1"
  shows "1 + x + x^2 / 2 + x^3 / 6 \<le> exp x"
    and "exp x \<le> 1 + x + x^2 / 2 + x^3 / 6 + x^4 / 8"
proof -
  obtain t where t: "\<bar>t\<bar> \<le> \<bar>x\<bar>"
    and e: "exp x = (\<Sum>m<4. (x ^ m) / fact m) + (exp t / fact 4) * x ^ 4"
    using Maclaurin_exp_le [of x 4] by blast
  have s: "(\<Sum>m<4. (x ^ m) / fact m) = 1 + x + x^2 / 2 + x^3 / 6"
    by (simp add: numeral_eq_Suc fact_numeral)
  have f4: "fact 4 = (24::real)" by (simp add: fact_numeral)
  have "0 \<le> (exp t / fact 4) * x ^ 4" using assms by simp
  thus "1 + x + x^2 / 2 + x^3 / 6 \<le> exp x" using e s by linarith
  have "t \<le> 1" using t assms by linarith
  hence "exp t \<le> exp 1" by simp
  hence "exp t \<le> 3" using exp_le by linarith
  hence "exp t / 24 \<le> 1 / 8" by simp
  hence "(exp t / 24) * x ^ 4 \<le> (1 / 8) * x ^ 4"
    using assms by (intro mult_right_mono) simp_all
  thus "exp x \<le> 1 + x + x^2 / 2 + x^3 / 6 + x^4 / 8" using e s f4 by simp
qed

lemma ln_four_thirds_bounds: "287 / 1000 < ln (4 / 3 :: real)" "ln (4 / 3 :: real) < 288 / 1000"
proof -
  have "exp (287 / 1000 :: real) \<le> 1 + 287/1000 + (287/1000)^2 / 2 + (287/1000)^3 / 6 + (287/1000)^4 / 8"
    by (rule exp_taylor4(2)) simp_all
  also have "\<dots> < 4 / 3" by (simp add: power_divide)
  finally have "exp (287 / 1000 :: real) < exp (ln (4 / 3))" by simp
  thus "287 / 1000 < ln (4 / 3 :: real)" by (simp only: exp_less_cancel_iff)
  have "(4 / 3 :: real) < 1 + 288/1000 + (288/1000)^2 / 2 + (288/1000)^3 / 6"
    by (simp add: power_divide)
  also have "\<dots> \<le> exp (288 / 1000)" by (rule exp_taylor4(1)) simp_all
  finally have "exp (ln (4 / 3)) < exp (288 / 1000 :: real)" by simp
  thus "ln (4 / 3 :: real) < 288 / 1000" by (simp only: exp_less_cancel_iff)
qed

lemma py_round3_grid: "\<exists>n::int. py_round3 x * 1000 = of_int n"
  by (simp add: py_round3_def)

lemma py_round3_lower: "x - 1 / 2000 \<le> py_round3 x"
proof -
  have "x * 1000 - 1 / 2 \<le> of_int (round_half_even (x * 1000))"
    by (auto simp: round_half_even_def Let_def) linarith+
  thus ?thesis by (simp add: py_round3_def field_simps)
qed

lemma round_ln_four_thirds: "py_round3 (ln (4 / 3)) \<noteq> ln (4 / 3)"
proof
  assume a: "py_round3 (ln (4 / 3)) = ln (4 / 3)"
  obtain n :: int where n: "py_round3 (ln (4 / 3)) * 1000 = of_int n"
    using py_round3_grid by blast
  have "287 < ln (4 / 3 :: real) * 1000" "ln (4 / 3 :: real) * 1000 < 288"
    using ln_four_thirds_bounds by simp_all
  hence "(287::real) < of_int n" "of_int n < (288::real)" using a n by simp_all
  hence "287 < n" "n < 288" by linarith+
  thus False by simp
qed

lemma round_twice_ln_four_thirds: "py_round3 (2 * ln (4 / 3)) \<noteq> ln (4 / 3)"
proof -
  have "2 * ln (4 / 3 :: real) - 1 / 2000 \<le> py_round3 (2 * ln (4 / 3))" by (rule py_round3_lower)
  thus ?thesis using ln_four_thirds_bounds by linarith
qed

subsection \<open>Search on the concrete stores\<close>

lemma enumerates_sorted_list_of_set: "enumerates sorted_list_of_set"
  by (simp add: enumerates_def)

lemma tokenize_cat_cat: "tokenize ''cat cat'' = [''cat'', ''cat'']"
  by code_simp

lemma tokenize_empty: "tokenize [] = []"
  by code_simp

lemma lower_cat: "lower ''cat'' = ''cat''"
  by code_simp

lemma snippet_cat: "make_snippet ''cat'' [''cat''] = ''cat''" "make_snippet ''cat'' [''cat'', ''cat''] = ''cat''"
  by (simp_all add: make_snippet_def lower_cat py_slice_def replace_newlines_def)

lemma sorted_p1_p2: "sorted_list_of_set {''p1'', ''p2''} = [''p1'', ''p2'']"
proof -
  have "sorted_list_of_set (set [''p1'', ''p2'']) = [''p1'', ''p2'']"
    by code_simp
  thus ?thesis by simp
qed

lemma index_wiki_cat:
  "inverted_index wiki_cat ''cat'' = Some {''p1''}"
  "doc_lengths wiki_cat ''p1'' = Some 1"
  "avg_doc_length wiki_cat = 1"
  by (simp_all add: wiki_cat_def create_def empty_wiki_def index_page_def
        remove_from_index_def Let_def tokenize_cat add_posting_def mean_length_def)

lemma search_wiki_cat:
  "search sorted_list_of_set wiki_cat ''cat'' 5 = Inr [(''p1'', py_round3 (ln (4 / 3)), ''cat'')]"
  by (simp add: search_def Let_def tokenize_cat pages_wiki_cat index_wiki_cat idf_def
        contribution_def bm25_term_def py_slice_to_def snippet_cat)

lemma search_wiki_cat_twice:
  "search sorted_list_of_set wiki_cat ''cat cat'' 5
     = Inr [(''p1'', py_round3 (2 * ln (4 / 3)), ''cat'')]"
  by (simp add: search_def Let_def tokenize_cat tokenize_cat_cat pages_wiki_cat index_wiki_cat idf_def
        contribution_def bm25_term_def py_slice_to_def snippet_cat)

lemma spec_score_wiki_cat:
  "spec_score wiki_cat ''cat'' ''p1'' = ln (4 / 3)"
  "spec_score wiki_cat ''cat cat'' ''p1'' = ln (4 / 3)"
  "code_score wiki_cat ''cat'' ''p1'' = ln (4 / 3)"
  by (simp_all add: spec_score_def code_score_def term_score_def tokenize_cat tokenize_cat_cat
        pages_wiki_cat index_wiki_cat idf_def bm25_term_def token_count_def Let_def)

lemma search_wiki_two_neg:
  "search sorted_list_of_set wiki_two ''cat'' (- 1) = Inr [(''p1'', py_round3 (ln (6 / 5)), ''cat'')]"
  by (simp add: search_def Let_def tokenize_cat pages_wiki_two index_wiki_two avg_wiki_two idf_def
        contribution_def bm25_term_def py_slice_to_def snippet_cat sorted_p1_p2 page_cat_def)

subsection \<open>Search: emptiness, length and order of the results\<close>

text \<open>
  Claim C8, as the code has it. In a reachable store, \<^verbatim>\<open>search(query, top_k)\<close> returns
  the empty list, without raising, whenever the query has no token or the store has no
  page; in every case it returns normally, the scores of its results are in
  non-increasing order, and for \<open>top_k \<ge> 0\<close> there are at most \<open>top_k\<close> of them.
\<close>

theorem search_empty_and_ranked:
  "reachable w \<Longrightarrow> enumerates enum \<Longrightarrow>
     (tokenize query = [] \<or> pages w = Map.empty \<longrightarrow> search enum w query top_k = Inr [])
   \<and> (\<exists>results. search enum w query top_k = Inr results
         \<and> (0 \<le> top_k \<longrightarrow> int (length results) \<le> top_k)
         \<and> sorted_wrt (\<lambda>a b. b \<le> a) (map (\<lambda>r. fst (snd r)) results))"
proof -
  assume r: "reachable w" and e: "enumerates enum"
  have 1: "tokenize query = [] \<or> pages w = Map.empty \<longrightarrow> search enum w query top_k = Inr []"
    by (auto simp: search_def Let_def)
  show ?thesis
  proof (cases "tokenize query = [] \<or> pages w = Map.empty")
    case True
    hence "search enum w query top_k = Inr []" using 1 by blast
    thus ?thesis by simp
  next
    case False
    then obtain scores where
      s: "search enum w query top_k =
          Inr (map (result_row w (tokenize query))
                 (py_slice_to (sort_key (\<lambda>x. - snd x) scores) top_k))"
      using search_shape [OF r e, of query top_k] by blast
    let ?ranked = "py_slice_to (sort_key (\<lambda>x. - snd x) scores) top_k"
    have l: "0 \<le> top_k \<longrightarrow> int (length (map (result_row w (tokenize query)) ?ranked)) \<le> top_k"
      by (auto simp: py_slice_to_def min_def)
    have "sorted_wrt (\<lambda>a b. b \<le> a) (map snd ?ranked)" by (rule ranked_descending)
    hence "sorted_wrt (\<lambda>a b. py_round3 b \<le> py_round3 a) (map snd ?ranked)"
      by (rule sorted_wrt_mono_rel [rotated]) (simp add: py_round3_mono)
    hence d: "sorted_wrt (\<lambda>a b. b \<le> a)
        (map (\<lambda>r. fst (snd r)) (map (result_row w (tokenize query)) ?ranked))"
      by (simp add: sorted_wrt_map result_row_def comp_def)
    from s l d False show ?thesis by simp
  qed
qed

theorem search_empty_and_ranked_witness:
  "reachable wiki_cat \<and> enumerates sorted_list_of_set
   \<and> tokenize [] = []
   \<and> search sorted_list_of_set wiki_cat [] 5 = Inr []
   \<and> search sorted_list_of_set wiki_cat ''cat'' 5 = Inr [(''p1'', py_round3 (ln (4 / 3)), ''cat'')]
   \<and> int (length [(''p1'', py_round3 (ln (4 / 3)), ''cat'')]) \<le> 5"
  using search_empty_and_ranked [OF reachable_wiki_cat enumerates_sorted_list_of_set, of "[]" 5]
    search_empty_and_ranked [OF reachable_wiki_cat enumerates_sorted_list_of_set, of "''cat''" 5]
    reachable_wiki_cat enumerates_sorted_list_of_set search_wiki_cat tokenize_empty
  by simp

text \<open>The claim as the specification words it fails for a negative \<open>top_k\<close>: with two
  pages that match, \<^verbatim>\<open>search("cat", top_k=-1)\<close> drops the last candidate and returns one
  result, which is more than \<open>top_k\<close>.\<close>

theorem search_top_k_counterexample:
  "tokenize ''cat'' \<noteq> [] \<and> pages wiki_two \<noteq> Map.empty
   \<and> search sorted_list_of_set wiki_two ''cat'' (- 1) = Inr [(''p1'', py_round3 (ln (6 / 5)), ''cat'')]
   \<and> \<not> int (length [(''p1'', py_round3 (ln (6 / 5)), ''cat'')]) \<le> - 1"
proof -
  have "pages wiki_two ''p1'' \<noteq> None" by (simp add: pages_wiki_two)
  hence "pages wiki_two \<noteq> Map.empty" by auto
  thus ?thesis by (simp add: tokenize_cat search_wiki_two_neg)
qed

subsection \<open>Search: the score of a result\<close>

text \<open>
  Claim C3, as the code has it. In a reachable store, each \<open>(title, score, snippet)\<close>
  returned by \<^verbatim>\<open>search\<close> has as score the value \<^verbatim>\<open>round(s, 3)\<close>, where \<open>s\<close> is the sum,
  over the tokens of the query with repetitions, of the BM25 term
  \<open>idf * tf * (k1 + 1) / (tf + k1 * (1 - b + b * dl / avgdl))\<close> of every token whose posting
  list contains the document, with \<open>k1 = 1.5\<close>, \<open>b = 0.75\<close>,
  \<open>idf = ln ((N - df + 0.5) / (df + 0.5) + 1)\<close>, \<open>tf\<close> the count of the token in the current
  content, \<open>dl\<close> the token count of the document and \<open>avgdl\<close> taken as 1 when it is 0.
\<close>

theorem search_score:
  "reachable w \<Longrightarrow> enumerates enum \<Longrightarrow> search enum w query top_k = Inr results \<Longrightarrow>
     (t, score, snippet) \<in> set results \<Longrightarrow> score = py_round3 (code_score w query t)"
proof -
  assume r: "reachable w" and e: "enumerates enum"
    and s: "search enum w query top_k = Inr results" and m: "(t, score, snippet) \<in> set results"
  have ne: "\<not> (tokenize query = [] \<or> pages w = Map.empty)"
    using s m by (auto simp: search_def Let_def)
  then obtain scores where
    v: "\<forall>x\<in>set scores. snd x = code_score w query (fst x) \<and> fst x \<in> dom (pages w)"
    and s': "search enum w query top_k =
          Inr (map (result_row w (tokenize query))
                 (py_slice_to (sort_key (\<lambda>x. - snd x) scores) top_k))"
    using search_shape [OF r e, of query top_k] by blast
  from s s' m obtain x where
    x: "x \<in> set (py_slice_to (sort_key (\<lambda>x. - snd x) scores) top_k)"
    and rr: "(t, score, snippet) = result_row w (tokenize query) x"
    by auto
  have "x \<in> set scores" using x set_py_slice_to [of "sort_key (\<lambda>x. - snd x) scores" top_k] by auto
  hence "snd x = code_score w query (fst x)" using v by blast
  thus ?thesis using rr by (simp add: result_row_def)
qed

theorem search_score_witness:
  "reachable wiki_cat \<and> enumerates sorted_list_of_set
   \<and> search sorted_list_of_set wiki_cat ''cat'' 5 = Inr [(''p1'', py_round3 (ln (4 / 3)), ''cat'')]
   \<and> code_score wiki_cat ''cat'' ''p1'' = ln (4 / 3)
   \<and> py_round3 (ln (4 / 3)) = py_round3 (code_score wiki_cat ''cat'' ''p1'')"
  using search_score [OF reachable_wiki_cat enumerates_sorted_list_of_set search_wiki_cat,
      of "''p1''" "py_round3 (ln (4 / 3))" "''cat''"]
    reachable_wiki_cat enumerates_sorted_list_of_set search_wiki_cat spec_score_wiki_cat(3)
  by simp

text \<open>The claim as the specification words it fails twice on the store with the one page
  \<^verbatim>\<open>p1 = "cat"\<close>. For the query \<^verbatim>\<open>"cat cat"\<close> the token is counted twice, so the score is
  the rounding of \<open>2 * ln (4/3)\<close> and not the sum over the distinct tokens, \<open>ln (4/3)\<close>.
  For the query \<^verbatim>\<open>"cat"\<close> the score is the rounding of \<open>ln (4/3)\<close> to three decimals,
  which is not \<open>ln (4/3)\<close>.\<close>

theorem search_score_counterexample:
  "search sorted_list_of_set wiki_cat ''cat cat'' 5 = Inr [(''p1'', py_round3 (2 * ln (4 / 3)), ''cat'')]
   \<and> spec_score wiki_cat ''cat cat'' ''p1'' = ln (4 / 3)
   \<and> py_round3 (2 * ln (4 / 3)) \<noteq> spec_score wiki_cat ''cat cat'' ''p1''
   \<and> search sorted_list_of_set wiki_cat ''cat'' 5 = Inr [(''p1'', py_round3 (ln (4 / 3)), ''cat'')]
   \<and> spec_score wiki_cat ''cat'' ''p1'' = ln (4 / 3)
   \<and> py_round3 (ln (4 / 3)) \<noteq> spec_score wiki_cat ''cat'' ''p1''"
  by (simp add: search_wiki_cat search_wiki_cat_twice spec_score_wiki_cat round_ln_four_thirds
        round_twice_ln_four_thirds)

end
